theory Spec2Isabelle
  imports Main "HOL-Library.Word" "HOL-Library.Signed_Division"
    "HOL-Library.Char_ord" "HOL-Library.List_Lexorder"
begin

section \<open>Shared types\<close>

text \<open>
  Go's \<open>time.Duration\<close> is an \<open>int64\<close> count of nanoseconds. The constants below are
  far from the 64-bit range, so durations and clock readings are integers.
\<close>

type_synonym Duration = int

text \<open>
  Fixed-width integers are words: \<open>+\<close> wraps around, \<open>sint\<close> reads an \<open>int64\<close> as two's
  complement, \<open>unat\<close> reads an unsigned value.
\<close>

type_synonym int64 = "64 word"
type_synonym uint64 = "64 word"
type_synonym uint32 = "32 word"

definition Nanosecond :: Duration where
  "Nanosecond = 1"

definition Microsecond :: Duration where
  "Microsecond = 1000 * Nanosecond"

definition Millisecond :: Duration where
  "Millisecond = 1000 * Microsecond"

definition Second :: Duration where
  "Second = 1000 * Millisecond"

text \<open>
  Errors are values. The named errors of the client and of etcdutil are constructors;
  \<open>External\<close> is an error handed in by a collaborator (gRPC, the dialer, etcd, a
  callback). \<open>errors.WithStack\<close> only attaches a stack trace and is the identity here.
\<close>

datatype error =
    errTSOLength
  | errUnmatchedClusterID
  | errFailInitClusterID
  | ErrClientUpdateMember string
  | ErrClientGetLeader string
  | ErrClientGetMember
  | External string

section \<open>etcdutil: the default constants (part\_000, lines 40-64 and 347-354)\<close>

definition defaultAutoSyncInterval :: Duration where
  "defaultAutoSyncInterval = 60 * Second"

definition DefaultDialTimeout :: Duration where
  "DefaultDialTimeout = 30 * Second"

definition DefaultRequestTimeout :: Duration where
  "DefaultRequestTimeout = 10 * Second"

definition DefaultSlowRequestTime :: Duration where
  "DefaultSlowRequestTime = Second"

definition defaultLoadDataFromEtcdTimeout :: Duration where
  "defaultLoadDataFromEtcdTimeout = 30 * Second"

definition defaultLoadFromEtcdRetryInterval :: Duration where
  "defaultLoadFromEtcdRetryInterval = 200 * Millisecond"

text \<open>Go's integer division truncates towards zero: \<open>sdiv\<close>.\<close>

definition defaultLoadFromEtcdRetryTimes :: int where
  "defaultLoadFromEtcdRetryTimes =
     defaultLoadDataFromEtcdTimeout sdiv defaultLoadFromEtcdRetryInterval"

definition defaultLoadBatchSize :: int64 where
  "defaultLoadBatchSize = 400"

definition defaultWatchChangeRetryInterval :: Duration where
  "defaultWatchChangeRetryInterval = 1 * Second"

definition defaultForceLoadMinimalInterval :: Duration where
  "defaultForceLoadMinimalInterval = 200 * Millisecond"

section \<open>etcdutil: LoopWatcher (part\_000, lines 356-420)\<close>

record KeyValue =
  Key :: string
  Value :: string

text \<open>
  The options of \<open>clientv3\<close> that select the range of a request. An option acts on
  the key that the request is made with: \<open>WithPrefix\<close> takes the keys that have the
  request's key as a prefix, \<open>WithRange\<close> the keys from the request's key up to a given
  end, \<open>WithFromKey\<close> all keys from the request's key on.
\<close>

datatype OpOption = WithPrefix | WithRange string | WithFromKey

text \<open>
  The fields of the Go struct that carry data. \<open>forceLoadCh\<close> is a channel of capacity 1
  holding signals without content: its model is the number of buffered signals.
  \<open>isLoadedCh\<close> is the buffered content of the completion channel. The context, the wait
  group, the etcd client and the test-only \<open>updateClientCh\<close> are collaborators handed to
  the operations that use them.
\<close>

record LoopWatcher =
  name :: string
  key :: string
  opts :: "OpOption list"
  forceLoadCh :: nat
  isLoadedCh :: "error option list"
  putFn :: "KeyValue \<Rightarrow> error option"
  deleteFn :: "KeyValue \<Rightarrow> error option"
  postEventFn :: "error option"
  lastTimeForceLoad :: int
  loadTimeout :: Duration
  loadRetryTimes :: int
  loadBatchSize :: int64
  watchChangeRetryInterval :: Duration

text \<open>\<open>now\<close> is the reading of \<open>time.Now()\<close> at construction.\<close>

definition NewLoopWatcher ::
  "int \<Rightarrow> string \<Rightarrow> string \<Rightarrow> (KeyValue \<Rightarrow> error option) \<Rightarrow> (KeyValue \<Rightarrow> error option)
     \<Rightarrow> error option \<Rightarrow> OpOption list \<Rightarrow> LoopWatcher" where
  "NewLoopWatcher now nm k put del post os =
     \<lparr> name = nm, key = k, opts = os, forceLoadCh = 0, isLoadedCh = [],
       putFn = put, deleteFn = del, postEventFn = post,
       lastTimeForceLoad = now,
       loadTimeout = defaultLoadDataFromEtcdTimeout,
       loadRetryTimes = defaultLoadFromEtcdRetryTimes,
       loadBatchSize = defaultLoadBatchSize,
       watchChangeRetryInterval = defaultWatchChangeRetryInterval \<rparr>"

subsection \<open>load (part\_000, lines 566-607)\<close>

text \<open>
  The etcd client is a collaborator. A \<open>kv_client\<close> gives the outcome of the \<open>n\<close>-th
  \<open>Get\<close> of a load (counted from 0) for the key and the options that the request is
  made with and for its limit, in ascending order of the keys: an error, or the key-value
  pairs returned, the flag \<open>More\<close> and the revision of the response header.
\<close>

record GetResponse =
  Kvs :: "KeyValue list"
  More :: bool
  Revision :: int64

type_synonym kv_client = "nat \<Rightarrow> string \<Rightarrow> OpOption list \<Rightarrow> int64 \<Rightarrow> error + GetResponse"

text \<open>What a watcher does, in order: the trace of its calls on etcd and on its callbacks.\<close>

datatype lw_event =
    GetEv string int64
  | PutEv KeyValue
  | DeleteEv KeyValue
  | PostEv
  | WatchOpen int64
  | SleepEv Duration

text \<open>
  The inner loop over \<open>resp.Kvs\<close> (lines 586-597), with \<open>startKey\<close>, the loop's \<open>err\<close>
  and the trace. \<open>i == len(resp.Kvs)-1\<close> holds at the last item.
\<close>

fun load_items ::
  "(KeyValue \<Rightarrow> error option) \<Rightarrow> bool \<Rightarrow> KeyValue list
     \<Rightarrow> string \<times> error option \<times> lw_event list \<Rightarrow> string \<times> error option \<times> lw_event list" where
  "load_items put hasMore [] acc = acc"
| "load_items put hasMore (item # rest) (startKey, err, tr) =
     (if hasMore \<and> rest = [] then load_items put hasMore rest (Key item, err, tr)
      else load_items put hasMore rest (startKey, put item, tr @ [PutEv item]))"

text \<open>
  The outer loop (lines 576-606). Every Get is made with the current \<open>startKey\<close> and
  with the watcher's own options (line 579 appends the sort order and the limit to
  \<open>lw.opts\<close>). The loop has no bound in the source: \<open>None\<close> is a load that never
  returns. The variable \<open>err\<close> that line 604 returns is the one declared at line 580 in
  the body of the loop: nil after a successful Get, then the result of the last \<open>putFn\<close>
  of the batch. The result of \<open>postEventFn\<close> is only logged.
\<close>

partial_function (option) load_loop ::
  "LoopWatcher \<Rightarrow> kv_client \<Rightarrow> nat \<Rightarrow> string \<Rightarrow> int64 \<Rightarrow> lw_event list
     \<Rightarrow> ((int64 \<times> error option) \<times> lw_event list) option" where
  "load_loop lw client n startKey limit tr =
     (case client n startKey (opts lw) limit of
        Inl err \<Rightarrow> Some ((0, Some err), tr @ [GetEv startKey limit])
      | Inr resp \<Rightarrow>
          (case load_items (putFn lw) (More resp) (Kvs resp)
                  (startKey, None, tr @ [GetEv startKey limit]) of
             (startKey', err, tr') \<Rightarrow>
               if \<not> More resp then Some ((Revision resp + 1, err), tr' @ [PostEv])
               else load_loop lw client (Suc n) startKey' limit tr'))"

definition load_limit :: "LoopWatcher \<Rightarrow> int64" where
  "load_limit lw = (if loadBatchSize lw \<noteq> 0 then loadBatchSize lw + 1 else loadBatchSize lw)"

definition load :: "LoopWatcher \<Rightarrow> kv_client \<Rightarrow> ((int64 \<times> error option) \<times> lw_event list) option" where
  "load lw client = load_loop lw client 0 (key lw) (load_limit lw) []"

text \<open>The pairs handed to \<open>putFn\<close> and the start keys and limits of the Gets, in order.\<close>

fun puts :: "lw_event list \<Rightarrow> KeyValue list" where
  "puts [] = []"
| "puts (PutEv kv # es) = kv # puts es"
| "puts (e # es) = puts es"

fun gets :: "lw_event list \<Rightarrow> (string \<times> int64) list" where
  "gets [] = []"
| "gets (GetEv s l # es) = (s, l) # gets es"
| "gets (e # es) = gets es"

text \<open>
  etcd serving a snapshot. \<open>in_range os s k\<close> tells whether the key \<open>k\<close> is in the
  range of a request made with the key \<open>s\<close> and the options \<open>os\<close>: every range
  option overwrites the end of the range, so the last one counts, and a request without
  one reads the single key \<open>s\<close>. For \<open>WithRange\<close> an empty end is no end at all, and
  the end of one zero byte stands for "all keys from \<open>s\<close> on".
\<close>

fun in_range :: "OpOption list \<Rightarrow> string \<Rightarrow> string \<Rightarrow> bool" where
  "in_range [] s k = (k = s)"
| "in_range (opt # os) s k =
     (case last (opt # os) of
        WithPrefix \<Rightarrow> take (length s) k = s
      | WithRange e \<Rightarrow>
          if e = [] then k = s
          else if e = [CHR 0x00] then s \<le> k
          else s \<le> k \<and> k < e
      | WithFromKey \<Rightarrow> s \<le> k)"

text \<open>
  \<open>kvs\<close> is the content of the snapshot in ascending order of the keys, \<open>revision\<close> its
  revision. A Get returns the pairs of its range; a positive limit cuts the result and
  sets \<open>More\<close> when pairs are left out.
\<close>

definition etcdGet :: "KeyValue list \<Rightarrow> int64 \<Rightarrow> kv_client" where
  "etcdGet kvs revision n startKey os limit =
     Inr (let rs = filter (\<lambda>kv. in_range os startKey (Key kv)) kvs
          in if sint limit \<le> 0 \<or> length rs \<le> nat (sint limit)
             then \<lparr> Kvs = rs, More = False, Revision = revision \<rparr>
             else \<lparr> Kvs = take (nat (sint limit)) rs, More = True, Revision = revision \<rparr>)"

subsection \<open>watch and the loop of StartWatchLoop (part\_000, lines 422-454 and 498-564)\<close>

datatype EventType = EventTypePut | EventTypeDelete

record Event =
  ev_Type :: EventType
  ev_Kv :: KeyValue

text \<open>
  A watch response: \<open>wresp_Err\<close> is the result of \<open>wresp.Err()\<close>, \<open>wresp_Revision\<close> is
  \<open>wresp.Header.Revision\<close>.
\<close>

record WatchResponse =
  CompactRevision :: int64
  wresp_Err :: "error option"
  Events :: "Event list"
  wresp_Revision :: int64

text \<open>
  The \<open>select\<close> of watch waits for the context, for a force-load signal and for the watch
  channel. What arrives, and in which order, is given by a script; a force-load signal
  comes with the behaviour of the etcd client during the load it starts. Once the context
  is done it stays done, so \<open>CtxDone\<close> is never taken off the script. With nothing left
  on the script the \<open>select\<close> waits for ever.
\<close>

datatype select_case = CtxDone | ForceLoadSig kv_client | WatchResp WatchResponse

datatype watch_result = Returned int64 "error option" | NoReturn

fun handle_events :: "LoopWatcher \<Rightarrow> Event list \<Rightarrow> lw_event list" where
  "handle_events lw [] = [PostEv]"
| "handle_events lw (event # events) =
     (case ev_Type event of
        EventTypePut \<Rightarrow> PutEv (ev_Kv event) # handle_events lw events
      | EventTypeDelete \<Rightarrow> DeleteEv (ev_Kv event) # handle_events lw events)"

text \<open>
  \<open>watch\<close>: every turn of the loop opens a watch channel at \<open>revision\<close>. The results of
  \<open>putFn\<close>, \<open>deleteFn\<close> and \<open>postEventFn\<close> are only logged by the source.
\<close>

fun watch ::
  "LoopWatcher \<Rightarrow> int64 \<Rightarrow> select_case list \<Rightarrow> lw_event list
     \<Rightarrow> watch_result \<times> lw_event list \<times> select_case list" where
  "watch lw revision [] tr = (NoReturn, tr @ [WatchOpen revision], [])"
| "watch lw revision (CtxDone # script) tr =
     (Returned revision None, tr @ [WatchOpen revision], CtxDone # script)"
| "watch lw revision (ForceLoadSig client # script) tr =
     (case load lw client of
        None \<Rightarrow> (NoReturn, tr @ [WatchOpen revision], script)
      | Some ((revision', err), loaded) \<Rightarrow>
          watch lw revision' script (tr @ [WatchOpen revision] @ loaded))"
| "watch lw revision (WatchResp wresp # script) tr =
     (if CompactRevision wresp \<noteq> 0
      then watch lw (CompactRevision wresp) script (tr @ [WatchOpen revision])
      else if wresp_Err wresp \<noteq> None
      then (Returned revision (wresp_Err wresp), tr @ [WatchOpen revision], script)
      else watch lw (wresp_Revision wresp + 1) script
             (tr @ [WatchOpen revision] @ handle_events lw (Events wresp)))"

text \<open>
  The loop of \<open>StartWatchLoop\<close> (lines 432-453); \<open>watchStartRevision\<close> starts as the result
  of \<open>initFromEtcd\<close>. The loop ends when the context is done and returns the trace;
  \<open>None\<close> is a loop that never returns. The failpoint is inactive outside tests.
\<close>

partial_function (option) watchLoop ::
  "LoopWatcher \<Rightarrow> int64 \<Rightarrow> select_case list \<Rightarrow> lw_event list \<Rightarrow> lw_event list option" where
  "watchLoop lw watchStartRevision script tr =
     (case script of
        CtxDone # _ \<Rightarrow> Some tr
      | _ \<Rightarrow>
          (case watch lw watchStartRevision script tr of
             (NoReturn, tr', script') \<Rightarrow> None
           | (Returned nextRevision None, tr', script') \<Rightarrow>
               watchLoop lw watchStartRevision script' tr'
           | (Returned nextRevision (Some err), tr', script') \<Rightarrow>
               watchLoop lw nextRevision script'
                 (tr' @ [SleepEv (watchChangeRetryInterval lw)])))"

subsection \<open>ForceLoad (part\_000, lines 609-634)\<close>

text \<open>
  \<open>t1\<close> and \<open>t2\<close> are the clock readings of the two \<open>time.Since\<close>, \<open>t3\<close> that of
  \<open>time.Now()\<close>. The first check runs under the read lock, the second check and the
  assignment under the write lock (\<open>ForceLoad_locked\<close>, which also tells whether the call
  was admitted), and the send on \<open>forceLoadCh\<close>, a channel of capacity 1, falls through
  to \<open>default\<close> when the buffer is full.
\<close>

definition ForceLoad_locked :: "LoopWatcher \<Rightarrow> int \<Rightarrow> int \<Rightarrow> LoopWatcher \<times> bool" where
  "ForceLoad_locked lw t2 t3 =
     (if t2 - lastTimeForceLoad lw < defaultForceLoadMinimalInterval then (lw, False)
      else (lw\<lparr> lastTimeForceLoad := t3 \<rparr>, True))"

definition ForceLoad_send :: "LoopWatcher \<Rightarrow> LoopWatcher" where
  "ForceLoad_send lw =
     (if forceLoadCh lw < 1 then lw\<lparr> forceLoadCh := Suc (forceLoadCh lw) \<rparr> else lw)"

definition ForceLoad :: "LoopWatcher \<Rightarrow> int \<Rightarrow> int \<Rightarrow> int \<Rightarrow> LoopWatcher" where
  "ForceLoad lw t1 t2 t3 =
     (if t1 - lastTimeForceLoad lw < defaultForceLoadMinimalInterval then lw
      else (case ForceLoad_locked lw t2 t3 of
              (lw1, False) \<Rightarrow> lw1
            | (lw1, True) \<Rightarrow> ForceLoad_send lw1))"

text \<open>
  Calls of ForceLoad one after the other, each with its three clock readings, and the
  readings \<open>t3\<close> of the calls that pass both checks, in order: the values that
  \<open>lastTimeForceLoad\<close> takes.
\<close>

fun ForceLoads :: "LoopWatcher \<Rightarrow> (int \<times> int \<times> int) list \<Rightarrow> LoopWatcher" where
  "ForceLoads lw [] = lw"
| "ForceLoads lw ((t1, t2, t3) # calls) = ForceLoads (ForceLoad lw t1 t2 t3) calls"

fun admitted :: "LoopWatcher \<Rightarrow> (int \<times> int \<times> int) list \<Rightarrow> int list" where
  "admitted lw [] = []"
| "admitted lw ((t1, t2, t3) # calls) =
     (if t1 - lastTimeForceLoad lw < defaultForceLoadMinimalInterval
         \<or> t2 - lastTimeForceLoad lw < defaultForceLoadMinimalInterval
      then admitted (ForceLoad lw t1 t2 t3) calls
      else t3 # admitted (ForceLoad lw t1 t2 t3) calls)"

section \<open>TSO client: messages and the service-discovery client of the TSO service\<close>

text \<open>
  The protobuf messages of \<open>tsopb\<close>, with the fields the client reads. A message field
  such as \<open>Timestamp\<close> is a pointer: \<open>None\<close> is nil, and the generated getters
  return the zero value on nil.
\<close>

record RequestHeader =
  ClusterId :: uint64

record TsoRequest =
  Header :: RequestHeader
  Count :: uint32
  DcLocation :: string

record Timestamp =
  Physical :: int64
  Logical :: int64
  SuffixBits :: uint32

record TsoResponse =
  resp_Count :: uint32
  resp_Timestamp :: "Timestamp option"

definition GetCount :: "TsoResponse \<Rightarrow> uint32" where
  "GetCount resp = resp_Count resp"

definition GetTimestamp :: "TsoResponse \<Rightarrow> Timestamp option" where
  "GetTimestamp resp = resp_Timestamp resp"

definition GetPhysical :: "Timestamp option \<Rightarrow> int64" where
  "GetPhysical t = (case t of None \<Rightarrow> 0 | Some ts \<Rightarrow> Physical ts)"

definition GetLogical :: "Timestamp option \<Rightarrow> int64" where
  "GetLogical t = (case t of None \<Rightarrow> 0 | Some ts \<Rightarrow> Logical ts)"

definition GetSuffixBits :: "Timestamp option \<Rightarrow> uint32" where
  "GetSuffixBits t = (case t of None \<Rightarrow> 0 | Some ts \<Rightarrow> SuffixBits ts)"

text \<open>
  \<open>tsoBaseClient\<close> (tso\_client.go, lines 96-126). \<open>primary\<close> is an \<open>atomic.Value\<close>,
  nil until the first store. The two \<open>sync.Map\<close>s are maps; \<open>'conn\<close> is the type of gRPC
  connections. A callback is a \<open>func()\<close>: the model keeps the identifiers of the registered
  callbacks, and the operations that run them report which ran.
\<close>

record 'conn tsoBaseClient =
  urls :: "string list"
  primary :: "string option"
  secondaries :: "string list option"
  tso_clusterID :: uint64
  clientConns :: "string \<rightharpoonup> 'conn"
  tsoAllocators :: "string \<rightharpoonup> string"
  primarySwitchedCallbacks :: "nat list"
  membersChangedCallbacks :: "nat list"

definition globalDCLocation :: string where
  "globalDCLocation = ''global''"

definition requestHeader :: "'conn tsoBaseClient \<Rightarrow> RequestHeader" where
  "requestHeader c = \<lparr> ClusterId = tso_clusterID c \<rparr>"

text \<open>
  A \<open>tsopb.TSO_TsoClient\<close> stream is a collaborator: \<open>Send\<close> and \<open>Recv\<close> act on its state
  \<open>'s\<close>. \<open>Recv\<close> returns a response or an error.
\<close>

record 's TSO_TsoClient =
  Send :: "'s \<Rightarrow> TsoRequest \<Rightarrow> error option \<times> 's"
  Recv :: "'s \<Rightarrow> (error + TsoResponse) \<times> 's"

datatype stream_call = SendCall TsoRequest | RecvCall

text \<open>
  \<open>ProcessTSORequests\<close> (tso\_client.go, lines 357-390). The result is the error or the
  triple (physical, logical, suffixBits); with an error Go returns zeros for the three.
  The stream's state after the call and the calls made on the stream, in order, are
  returned too. The metrics observations have no effect on the result and are left out.
\<close>

definition ProcessTSORequests ::
  "'s TSO_TsoClient \<Rightarrow> 'conn tsoBaseClient \<Rightarrow> 's \<Rightarrow> string \<Rightarrow> 'r list
     \<Rightarrow> (error + int64 \<times> int64 \<times> uint32) \<times> 's \<times> stream_call list" where
  "ProcessTSORequests tsoStream c s dcLocation requests =
     (let count = (of_nat (length requests) :: int64);
          req = \<lparr> Header = requestHeader c, Count = ucast count, DcLocation = dcLocation \<rparr>
      in case Send tsoStream s req of
           (Some err, s1) \<Rightarrow> (Inl err, s1, [SendCall req])
         | (None, s1) \<Rightarrow>
             (case Recv tsoStream s1 of
                (Inl err, s2) \<Rightarrow> (Inl err, s2, [SendCall req, RecvCall])
              | (Inr resp, s2) \<Rightarrow>
                  if GetCount resp \<noteq> ucast count
                  then (Inl errTSOLength, s2, [SendCall req, RecvCall])
                  else (Inr (GetPhysical (GetTimestamp resp), GetLogical (GetTimestamp resp),
                             GetSuffixBits (GetTimestamp resp)),
                        s2, [SendCall req, RecvCall])))"

text \<open>The requests sent on the stream during a call.\<close>

fun sent :: "stream_call list \<Rightarrow> TsoRequest list" where
  "sent [] = []"
| "sent (SendCall r # cs) = r # sent cs"
| "sent (RecvCall # cs) = sent cs"


text \<open>
  Dialing is a collaborator: \<open>ToTLSConfig\<close> is the outcome of building the TLS
  configuration from the security options, \<open>GetClientConn\<close> that of
  \<open>grpcutil.GetClientConn\<close> for an address.
\<close>

record 'conn dialer =
  ToTLSConfig :: "error option"
  GetClientConn :: "string \<Rightarrow> error + 'conn"

text \<open>
  \<open>GetOrCreateGRPCConn\<close> (tso\_client.go, lines 221-252). The second lookup guards
  against a concurrent store between the first lookup and the dial; run alone it finds
  what the first lookup found.
\<close>

definition GetOrCreateGRPCConn ::
  "'conn dialer \<Rightarrow> 'conn tsoBaseClient \<Rightarrow> string \<Rightarrow> (error + 'conn) \<times> 'conn tsoBaseClient" where
  "GetOrCreateGRPCConn env c addr =
     (case clientConns c addr of
        Some conn \<Rightarrow> (Inr conn, c)
      | None \<Rightarrow>
          (case ToTLSConfig env of
             Some err \<Rightarrow> (Inl err, c)
           | None \<Rightarrow>
               (case GetClientConn env addr of
                  Inl err \<Rightarrow> (Inl err, c)
                | Inr cc \<Rightarrow>
                    (case clientConns c addr of
                       Some old \<Rightarrow> (Inr old, c)
                     | None \<Rightarrow> (Inr cc, c\<lparr> clientConns := (clientConns c)(addr \<mapsto> cc) \<rparr>)))))"

definition getPrimaryAddr :: "'conn tsoBaseClient \<Rightarrow> string" where
  "getPrimaryAddr c = (case primary c of None \<Rightarrow> [] | Some primaryAddr \<Rightarrow> primaryAddr)"

text \<open>
  \<open>switchPrimary\<close> (tso\_client.go, lines 317-338). A panic is \<open>Inl\<close> with its message:
  \<open>addrs[0]\<close> panics on an empty slice. Otherwise the result is \<open>Inr\<close> of the returned
  error (\<open>None\<close> is nil). The third component lists the callbacks that ran.
\<close>

definition switchPrimary ::
  "'conn dialer \<Rightarrow> 'conn tsoBaseClient \<Rightarrow> string list
     \<Rightarrow> (string + error option) \<times> 'conn tsoBaseClient \<times> nat list" where
  "switchPrimary env c addrs =
     (case addrs of
        [] \<Rightarrow> (Inl ''index out of range [0] with length 0'', c, [])
      | addr # _ \<Rightarrow>
          (let oldPrimary = getPrimaryAddr c in
           if addr = oldPrimary then (Inr None, c, [])
           else
             (case GetOrCreateGRPCConn env c addr of
                (Inl err, c1) \<Rightarrow> (Inr (Some err), c1, [])
              | (Inr _, c1) \<Rightarrow>
                  (Inr None,
                   c1\<lparr> primary := Some addr,
                       tsoAllocators := (tsoAllocators c1)(globalDCLocation \<mapsto> addr) \<rparr>,
                   primarySwitchedCallbacks c1))))"

text \<open>
  \<open>newTSOBaseClient\<close> (tso\_client.go, lines 128-149). The error of \<open>switchPrimary\<close> is
  dropped by the source; \<open>Inr None\<close> is the nil client returned when the connection to the
  primary cannot be made.
\<close>

definition newTSOBaseClient ::
  "'conn dialer \<Rightarrow> string list \<Rightarrow> string + 'conn tsoBaseClient option" where
  "newTSOBaseClient env us =
     (let bc = \<lparr> urls = us, primary = None, secondaries = None, tso_clusterID = 0,
                 clientConns = Map.empty, tsoAllocators = Map.empty,
                 primarySwitchedCallbacks = [], membersChangedCallbacks = [] \<rparr>
      in case switchPrimary env bc us of
           (Inl p, _, _) \<Rightarrow> Inl p
         | (Inr _, bc1, _) \<Rightarrow>
             (case GetOrCreateGRPCConn env bc1 (getPrimaryAddr bc1) of
                (Inl err, _) \<Rightarrow> Inr None
              | (Inr _, bc2) \<Rightarrow> Inr (Some bc2)))"

text \<open>
  \<open>GetTSOAllocatorClientConnByDCLocation\<close> (tso\_client.go, lines 185-197); \<open>Inl\<close> is a
  panic with its message.
\<close>

definition GetTSOAllocatorClientConnByDCLocation ::
  "'conn tsoBaseClient \<Rightarrow> string \<Rightarrow> string + 'conn \<times> string" where
  "GetTSOAllocatorClientConnByDCLocation c dcLocation =
     (case tsoAllocators c dcLocation of
        None \<Rightarrow> Inl (''the allocator leader in '' @ dcLocation @ '' should exist'')
      | Some url \<Rightarrow>
          (case clientConns c url of
             None \<Rightarrow> Inl (''the client connection of '' @ url @ '' in '' @ dcLocation
                          @ '' should exist'')
           | Some cc \<Rightarrow> Inr (cc, url)))"

text \<open>
  The clients that the code can build: one returned by \<open>newTSOBaseClient\<close>, then any
  number of calls of \<open>switchPrimary\<close> and \<open>GetOrCreateGRPCConn\<close>, the two operations of
  the file that write \<open>tsoAllocators\<close> or \<open>clientConns\<close>, each with any dialing outcome.
\<close>

inductive reachable :: "'conn tsoBaseClient \<Rightarrow> bool" where
  new: "newTSOBaseClient env us = Inr (Some c) \<Longrightarrow> reachable c"
| switch: "reachable c \<Longrightarrow> switchPrimary env c addrs = (r, c', cbs) \<Longrightarrow> reachable c'"
| conn: "reachable c \<Longrightarrow> GetOrCreateGRPCConn env c addr = (r', c') \<Longrightarrow> reachable c'"

section \<open>TSO client: GetLocalTSWithinKeyspaceAsync (tso\_client.go, lines 70-92)\<close>

text \<open>
  A \<open>tsoRequest\<close> is the future handed back to the caller. \<open>done_ch\<close> is the content of
  its channel \<open>done\<close>, oldest first; \<open>None\<close> is a nil error.
\<close>

record 'ctx tsoRequest =
  requestCtx :: 'ctx
  clientCtx :: 'ctx
  start :: int
  req_dcLocation :: string
  keyspaceID :: uint32
  done_ch :: "error option list"

text \<open>
  The client of the method is a collaborator: \<open>dispatchRequest\<close> (not in the files of this
  development) acts on the client's state \<open>'st\<close> and returns an error or nil;
  \<open>startSpan\<close> is the effect of lines 74-77 on the context (the identity when the context
  carries no span); \<open>c_ctx\<close> is the client's own context.
\<close>

record ('st, 'ctx) tso_dispatch_client =
  dispatchRequest :: "'st \<Rightarrow> string \<Rightarrow> 'ctx tsoRequest \<Rightarrow> error option \<times> 'st"
  startSpan :: "'ctx \<Rightarrow> 'ctx"
  c_ctx :: 'ctx

datatype async_event = Dispatch | Sleep Duration

text \<open>
  \<open>pooled\<close> is the request taken from \<open>tsoReqPool\<close>, \<open>now\<close> the reading of \<open>time.Now()\<close>.
  The result is the returned future, the client's state and what the method did, in order.
\<close>

definition GetLocalTSWithinKeyspaceAsync ::
  "('st, 'ctx) tso_dispatch_client \<Rightarrow> 'st \<Rightarrow> 'ctx tsoRequest \<Rightarrow> int \<Rightarrow> 'ctx \<Rightarrow> string \<Rightarrow> uint32
     \<Rightarrow> 'ctx tsoRequest \<times> 'st \<times> async_event list" where
  "GetLocalTSWithinKeyspaceAsync c st pooled now ctx dcLoc ksID =
     (let req = pooled\<lparr> requestCtx := startSpan c ctx, clientCtx := c_ctx c, start := now,
                      req_dcLocation := dcLoc, keyspaceID := ksID \<rparr>
      in case dispatchRequest c st dcLoc req of
           (None, st1) \<Rightarrow> (req, st1, [Dispatch])
         | (Some err, st1) \<Rightarrow>
             (case dispatchRequest c st1 dcLoc req of
                (None, st2) \<Rightarrow> (req, st2, [Dispatch, Sleep (50 * Millisecond), Dispatch])
              | (Some err2, st2) \<Rightarrow>
                  (req\<lparr> done_ch := done_ch req @ [Some err2] \<rparr>, st2,
                   [Dispatch, Sleep (50 * Millisecond), Dispatch])))"


section \<open>PD service discovery (pd\_service\_discovery.go)\<close>

text \<open>
  The messages of \<open>pdpb\<close> that the discovery client reads. A nil message is \<open>None\<close>;
  the generated getters return the zero value on nil.
\<close>

record Member =
  MemberId :: uint64
  ClientUrls :: "string list"

record ResponseHeader =
  header_ClusterId :: uint64
  header_Error :: "string option"

record GetMembersResponse =
  members_Header :: "ResponseHeader option"
  Members :: "Member list"
  Leader :: "Member option"
  TsoAllocatorLeaders :: "(string \<times> Member) list"

definition GetHeader :: "GetMembersResponse \<Rightarrow> ResponseHeader option" where
  "GetHeader members = members_Header members"

definition GetClusterId :: "ResponseHeader option \<Rightarrow> uint64" where
  "GetClusterId h = (case h of None \<Rightarrow> 0 | Some header \<Rightarrow> header_ClusterId header)"

definition GetError :: "ResponseHeader option \<Rightarrow> string option" where
  "GetError h = (case h of None \<Rightarrow> None | Some header \<Rightarrow> header_Error header)"

definition GetLeader :: "GetMembersResponse \<Rightarrow> Member option" where
  "GetLeader members = Leader members"

definition GetClientUrls :: "Member option \<Rightarrow> string list" where
  "GetClientUrls m = (case m of None \<Rightarrow> [] | Some mem \<Rightarrow> ClientUrls mem)"

definition GetMemberId :: "Member option \<Rightarrow> uint64" where
  "GetMemberId m = (case m of None \<Rightarrow> 0 | Some mem \<Rightarrow> MemberId mem)"

text \<open>
  \<open>pdServiceDiscovery\<close> (lines 95-128). \<open>pd_clientConns\<close> is the set of addresses that
  have a connection in the pool. The callbacks without a result are kept by identifier,
  and \<open>ran\<close> logs the ones that ran, oldest first; the callbacks for the allocator
  leaders return an error or nil and are functions of the map they are given (an
  association list from dc-location to address). \<open>enableTSOFollowerProxy\<close> is the one
  client option the modelled code reads.
\<close>

datatype callback = LeaderSwitched nat | MembersChanged nat

record pdServiceDiscovery =
  pd_urls :: "string list"
  pd_leader :: "string option"
  pd_followers :: "string list option"
  pd_clusterID :: uint64
  pd_clientConns :: "string set"
  leaderSwitchedCbs :: "nat list"
  membersChangedCbs :: "nat list"
  tsoAllocLeadersUpdatedCbs :: "((string \<times> string) list \<Rightarrow> error option) list"
  enableTSOFollowerProxy :: bool
  ran :: "callback list"

text \<open>
  The collaborators of the discovery client: \<open>pd_dial\<close> is the outcome of opening a
  connection to an address, \<open>GetMembersRPC\<close> the outcome of the GetMembers call on the
  connection to an address, and \<open>ctxDone i\<close> tells whether the client's context is done
  when the \<open>i\<close>-th URL of a membership update has failed.
\<close>

record pd_env =
  pd_dial :: "string \<Rightarrow> error option"
  GetMembersRPC :: "string \<Rightarrow> error + GetMembersResponse"
  ctxDone :: "nat \<Rightarrow> bool"

definition GetURLs :: "pdServiceDiscovery \<Rightarrow> string list" where
  "GetURLs c = pd_urls c"

definition getLeaderAddr :: "pdServiceDiscovery \<Rightarrow> string" where
  "getLeaderAddr c = (case pd_leader c of None \<Rightarrow> [] | Some leaderAddr \<Rightarrow> leaderAddr)"

text \<open>
  Modelled from the spec: \<open>grpcutil.GetOrCreateGRPCConn\<close>, which line 498 calls, is not in
  the files of this development. The spec describes a connection pool from address to
  connection, filled by check-then-insert: an address in the pool is served from it, any
  other is dialed and, when the dial succeeds, inserted.
\<close>

definition pd_GetOrCreateGRPCConn ::
  "pd_env \<Rightarrow> pdServiceDiscovery \<Rightarrow> string \<Rightarrow> error option \<times> pdServiceDiscovery" where
  "pd_GetOrCreateGRPCConn env c addr =
     (if addr \<in> pd_clientConns c then (None, c)
      else (case pd_dial env addr of
              Some err \<Rightarrow> (Some err, c)
            | None \<Rightarrow> (None, c\<lparr> pd_clientConns := insert addr (pd_clientConns c) \<rparr>)))"

text \<open>\<open>getMembers\<close> (lines 382-399).\<close>

definition getMembers ::
  "pd_env \<Rightarrow> pdServiceDiscovery \<Rightarrow> string
     \<Rightarrow> (error + GetMembersResponse) \<times> pdServiceDiscovery" where
  "getMembers env c url =
     (case pd_GetOrCreateGRPCConn env c url of
        (Some err, c1) \<Rightarrow> (Inl err, c1)
      | (None, c1) \<Rightarrow>
          (case GetMembersRPC env url of
             Inl err \<Rightarrow> (Inl ErrClientGetMember, c1)
           | Inr members \<Rightarrow>
               if GetError (GetHeader members) \<noteq> None then (Inl ErrClientGetMember, c1)
               else (Inr members, c1)))"

text \<open>
  \<open>initClusterID\<close> (lines 304-332). The loop carries the local variable \<open>clusterID\<close>;
  its result is the error it returns from inside, or the value of the variable after the
  last URL. The failpoint is inactive outside tests.
\<close>

fun initClusterID_loop ::
  "pd_env \<Rightarrow> string list \<Rightarrow> uint64 \<Rightarrow> pdServiceDiscovery
     \<Rightarrow> (error + uint64) \<times> pdServiceDiscovery" where
  "initClusterID_loop env [] clusterID c = (Inr clusterID, c)"
| "initClusterID_loop env (u # us) clusterID c =
     (case getMembers env c u of
        (Inl err, c1) \<Rightarrow> initClusterID_loop env us clusterID c1
      | (Inr members, c1) \<Rightarrow>
          if GetHeader members = None then initClusterID_loop env us clusterID c1
          else if clusterID = 0
            then initClusterID_loop env us (GetClusterId (GetHeader members)) c1
          else if GetClusterId (GetHeader members) \<noteq> clusterID
            then (Inl errUnmatchedClusterID, c1)
          else initClusterID_loop env us clusterID c1)"

definition initClusterID :: "pd_env \<Rightarrow> pdServiceDiscovery \<Rightarrow> error option \<times> pdServiceDiscovery" where
  "initClusterID env c =
     (case initClusterID_loop env (GetURLs c) 0 c of
        (Inl err, c1) \<Rightarrow> (Some err, c1)
      | (Inr clusterID, c1) \<Rightarrow>
          if clusterID = 0 then (Some errFailInitClusterID, c1)
          else (None, c1\<lparr> pd_clusterID := clusterID \<rparr>))"

text \<open>
  The outcomes of \<open>getMembers\<close> on a list of URLs, asked in order (each call may add a
  connection to the pool), and the cluster ids of the replies that succeeded and carry a
  header.
\<close>

fun replies :: "pd_env \<Rightarrow> pdServiceDiscovery \<Rightarrow> string list \<Rightarrow> (error + GetMembersResponse) list" where
  "replies env c [] = []"
| "replies env c (u # us) =
     (case getMembers env c u of (r, c1) \<Rightarrow> r # replies env c1 us)"

fun headerIDs :: "(error + GetMembersResponse) list \<Rightarrow> uint64 list" where
  "headerIDs [] = []"
| "headerIDs (Inl err # rs) = headerIDs rs"
| "headerIDs (Inr members # rs) =
     (if GetHeader members = None then headerIDs rs
      else GetClusterId (GetHeader members) # headerIDs rs)"


text \<open>
  \<open>switchTSOAllocatorLeaders\<close> and \<open>switchTSOAllocatorLeader\<close> (lines 459-494). The
  callbacks run in order, and the first error ends the run. The Go maps are association
  lists with one entry for each key.
\<close>

fun runTSOCbs ::
  "((string \<times> string) list \<Rightarrow> error option) list \<Rightarrow> (string \<times> string) list \<Rightarrow> error option" where
  "runTSOCbs [] allocMap = None"
| "runTSOCbs (cb # cbs) allocMap =
     (case cb allocMap of Some err \<Rightarrow> Some err | None \<Rightarrow> runTSOCbs cbs allocMap)"

fun allocMapOf :: "(string \<times> Member) list \<Rightarrow> (string \<times> string) list" where
  "allocMapOf [] = []"
| "allocMapOf ((dcLocation, member) # rest) =
     (case ClientUrls member of
        [] \<Rightarrow> allocMapOf rest
      | url # _ \<Rightarrow> (dcLocation, url) # allocMapOf rest)"

definition switchTSOAllocatorLeaders ::
  "pdServiceDiscovery \<Rightarrow> (string \<times> Member) list \<Rightarrow> error option" where
  "switchTSOAllocatorLeaders c allocatorMap =
     (if allocatorMap = [] then None
      else runTSOCbs (tsoAllocLeadersUpdatedCbs c) (allocMapOf allocatorMap))"

definition switchTSOAllocatorLeader :: "pdServiceDiscovery \<Rightarrow> string \<Rightarrow> string \<Rightarrow> error option" where
  "switchTSOAllocatorLeader c dcLocation addr =
     runTSOCbs (tsoAllocLeadersUpdatedCbs c) [(dcLocation, addr)]"

text \<open>
  \<open>updateURLs\<close> (lines 401-422). \<open>sort.Strings\<close> is \<open>sort\<close> in the byte order of
  strings. The comparison is on the contents of the two slices; Go's
  \<open>reflect.DeepEqual\<close> also tells a nil slice from an empty one.
\<close>

definition updateURLs :: "pdServiceDiscovery \<Rightarrow> Member list \<Rightarrow> pdServiceDiscovery" where
  "updateURLs c members =
     (let us = sort (concat (map ClientUrls members));
          oldURLs = GetURLs c
      in if oldURLs = us then c
         else (let c1 = c\<lparr> pd_urls := us \<rparr>
               in if enableTSOFollowerProxy c1
                  then c1\<lparr> ran := ran c1 @ map MembersChanged (membersChangedCbs c1) \<rparr>
                  else c1))"

text \<open>\<open>updateFollowers\<close> (lines 447-457).\<close>

definition updateFollowers ::
  "pdServiceDiscovery \<Rightarrow> Member list \<Rightarrow> Member option \<Rightarrow> pdServiceDiscovery" where
  "updateFollowers c members leader =
     c\<lparr> pd_followers :=
          Some (concat (map ClientUrls
                  (filter (\<lambda>member. MemberId member \<noteq> GetMemberId leader) members))) \<rparr>"

text \<open>
  \<open>switchLeader\<close> (lines 424-445). \<open>Inl\<close> is the panic of \<open>addrs[0]\<close> on an empty
  slice. The error of \<open>switchTSOAllocatorLeader\<close> is dropped by the source.
\<close>

definition switchLeader ::
  "pd_env \<Rightarrow> pdServiceDiscovery \<Rightarrow> string list
     \<Rightarrow> (string + error option) \<times> pdServiceDiscovery" where
  "switchLeader env c addrs =
     (case addrs of
        [] \<Rightarrow> (Inl ''index out of range [0] with length 0'', c)
      | addr # _ \<Rightarrow>
          (let oldLeader = getLeaderAddr c in
           if addr = oldLeader then (Inr None, c)
           else
             (case pd_GetOrCreateGRPCConn env c addr of
                (Some err, c1) \<Rightarrow> (Inr (Some err), c1)
              | (None, c1) \<Rightarrow>
                  (let c2 = c1\<lparr> pd_leader := Some addr \<rparr>;
                       dropped = switchTSOAllocatorLeader c2 globalDCLocation addr
                   in (Inr None,
                       c2\<lparr> ran := ran c2 @ map LeaderSwitched (leaderSwitchedCbs c2) \<rparr>)))))"

text \<open>
  \<open>updateMember\<close> (lines 334-380). The loop runs over the URLs read at its start;
  \<open>i\<close> is the index of the URL at hand. \<open>Inl\<close> is a panic, \<open>Inr\<close> the returned error
  (\<open>None\<close> is nil, the update succeeded). The failpoint is inactive outside tests.
\<close>

fun updateMember_loop ::
  "pd_env \<Rightarrow> nat \<Rightarrow> string list \<Rightarrow> pdServiceDiscovery
     \<Rightarrow> (string + error option) \<times> pdServiceDiscovery" where
  "updateMember_loop env i [] c = (Inr (Some ErrClientGetMember), c)"
| "updateMember_loop env i (u # us) c =
     (case getMembers env c u of
        (Inl err, c1) \<Rightarrow>
          if ctxDone env i then (Inr (Some err), c1)
          else updateMember_loop env (Suc i) us c1
      | (Inr members, c1) \<Rightarrow>
          (let err1 = (if GetClusterId (GetHeader members) \<noteq> pd_clusterID c1
                       then Some (ErrClientUpdateMember ''cluster id does not match'')
                       else None);
               err2 = (if err1 = None
                          \<and> (GetLeader members = None
                               \<or> length (GetClientUrls (GetLeader members)) = 0)
                       then Some (ErrClientGetLeader ''leader address don't exist'')
                       else err1);
               errTSO = (if err1 = None
                         then switchTSOAllocatorLeaders c1 (TsoAllocatorLeaders members)
                         else None)
           in case err2 of
                Some err \<Rightarrow>
                  if ctxDone env i then (Inr (Some err), c1)
                  else updateMember_loop env (Suc i) us c1
              | None \<Rightarrow>
                  (let c2 = updateURLs c1 (Members members);
                       c3 = updateFollowers c2 (Members members) (GetLeader members)
                   in case switchLeader env c3 (GetClientUrls (GetLeader members)) of
                        (Inl p, c4) \<Rightarrow> (Inl p, c4)
                      | (Inr (Some err), c4) \<Rightarrow> (Inr (Some err), c4)
                      | (Inr None, c4) \<Rightarrow> (Inr errTSO, c4))))"

definition updateMember ::
  "pd_env \<Rightarrow> pdServiceDiscovery \<Rightarrow> (string + error option) \<times> pdServiceDiscovery" where
  "updateMember env c = updateMember_loop env 0 (GetURLs c) c"


text \<open>\<open>newPDServiceDiscovery\<close> (lines 130-143): every field but the URLs is zero.\<close>

definition newPDServiceDiscovery :: "string list \<Rightarrow> pdServiceDiscovery" where
  "newPDServiceDiscovery us =
     \<lparr> pd_urls = us, pd_leader = None, pd_followers = None, pd_clusterID = 0,
       pd_clientConns = {}, leaderSwitchedCbs = [], membersChangedCbs = [],
       tsoAllocLeadersUpdatedCbs = [], enableTSOFollowerProxy = False, ran = [] \<rparr>"

subsection \<open>Two clusters for the discovery client\<close>

text \<open>
  In \<open>cluster_by_id\<close> every address can be dialed and answers GetMembers with a header
  carrying the cluster id \<open>ids url\<close>, one member and leader whose client URL is \<open>b\<close>,
  and no allocator leaders; the context is never done.
\<close>

definition cluster_by_id :: "(string \<Rightarrow> uint64) \<Rightarrow> pd_env" where
  "cluster_by_id ids =
     \<lparr> pd_dial = (\<lambda>addr. None),
       GetMembersRPC = (\<lambda>url. Inr
         \<lparr> members_Header = Some \<lparr> header_ClusterId = ids url, header_Error = None \<rparr>,
           Members = [\<lparr> MemberId = 1, ClientUrls = [''b''] \<rparr>],
           Leader = Some \<lparr> MemberId = 1, ClientUrls = [''b''] \<rparr>,
           TsoAllocatorLeaders = [] \<rparr>),
       ctxDone = (\<lambda>i. False) \<rparr>"


section \<open>Theorems\<close>

subsection \<open>Default constants\<close>

lemma Second_ns: "Second = 1000000000"
  by (simp add: Second_def Millisecond_def Microsecond_def Nanosecond_def)

lemma Millisecond_ns: "Millisecond = 1000000"
  by (simp add: Millisecond_def Microsecond_def Nanosecond_def)

lemma defaultLoadFromEtcdRetryTimes_150: "defaultLoadFromEtcdRetryTimes = 150"
  by (simp add: defaultLoadFromEtcdRetryTimes_def defaultLoadDataFromEtcdTimeout_def
      defaultLoadFromEtcdRetryInterval_def Second_ns Millisecond_ns signed_divide_int_def)

text \<open>
  Claim C7. The default configuration constants have the specified values: the slow-request
  threshold is 1 s, the request timeout 10 s, the dial timeout 30 s and the auto-sync
  interval 60 s; a LoopWatcher made by NewLoopWatcher has loadTimeout 30 s, loadRetryTimes
  150, loadBatchSize 400 and watchChangeRetryInterval 1 s, and the minimal interval between
  two force loads is 200 ms.
\<close>

theorem C7_default_constants:
  "DefaultSlowRequestTime = 1 * Second
   \<and> DefaultRequestTimeout = 10 * Second
   \<and> DefaultDialTimeout = 30 * Second
   \<and> defaultAutoSyncInterval = 60 * Second
   \<and> loadTimeout (NewLoopWatcher now nm k put del post os) = 30 * Second
   \<and> loadRetryTimes (NewLoopWatcher now nm k put del post os) = 150
   \<and> loadBatchSize (NewLoopWatcher now nm k put del post os) = 400
   \<and> watchChangeRetryInterval (NewLoopWatcher now nm k put del post os) = 1 * Second
   \<and> defaultForceLoadMinimalInterval = 200 * Millisecond
   \<and> Second = 1000 * Millisecond \<and> Millisecond = 1000000 * Nanosecond"
  by (simp add: DefaultSlowRequestTime_def DefaultRequestTimeout_def DefaultDialTimeout_def
      defaultAutoSyncInterval_def NewLoopWatcher_def defaultLoadDataFromEtcdTimeout_def
      defaultLoadFromEtcdRetryTimes_150 defaultLoadBatchSize_def
      defaultWatchChangeRetryInterval_def defaultForceLoadMinimalInterval_def
      Second_def Millisecond_def Microsecond_def Nanosecond_def)


subsection \<open>ProcessTSORequests\<close>

lemma ucast_count: "(ucast (of_nat n :: int64) :: uint32) = of_nat n"
  by transfer (simp add: take_bit_of_nat min_def)

lemma sent_ProcessTSORequests:
  "sent (snd (snd (ProcessTSORequests tsoStream c s dcLocation requests))) =
     [\<lparr> Header = \<lparr> ClusterId = tso_clusterID c \<rparr>, Count = of_nat (length requests),
        DcLocation = dcLocation \<rparr>]"
  by (simp add: ProcessTSORequests_def Let_def ucast_count requestHeader_def
      split: prod.splits option.splits sum.splits)

text \<open>
  Claim C2. A call of ProcessTSORequests with a batch of n requests sends exactly one
  TsoRequest on the stream, with Count = n (as a uint32), the client's cluster id and the
  given dc-location. When the stream accepts the request and answers with a response, the
  call fails with errTSOLength if the response's count differs from n, and otherwise
  returns the physical, logical and suffixBits of the response's timestamp with no error.
  For n below 2^32 the count on the wire reads back as n.
\<close>

theorem C2_ProcessTSORequests:
  fixes requests :: "'r list" and c :: "'conn tsoBaseClient" and dcLocation :: string
    and tsoStream :: "'s TSO_TsoClient" and s :: 's
  defines "n \<equiv> length requests"
  defines "req \<equiv> \<lparr> Header = \<lparr> ClusterId = tso_clusterID c \<rparr>, Count = of_nat n,
                     DcLocation = dcLocation \<rparr>"
  defines "call \<equiv> ProcessTSORequests tsoStream c s dcLocation requests"
  shows "sent (snd (snd call)) = [req]
    \<and> (n < 2 ^ 32 \<longrightarrow> map (\<lambda>r. unat (Count r)) (sent (snd (snd call))) = [n])
    \<and> (\<forall>s1 resp s2.
          Send tsoStream s req = (None, s1) \<and> Recv tsoStream s1 = (Inr resp, s2)
          \<longrightarrow> (resp_Count resp \<noteq> of_nat n \<longrightarrow> fst call = Inl errTSOLength)
            \<and> (resp_Count resp = of_nat n \<longrightarrow>
                 fst call = Inr (GetPhysical (resp_Timestamp resp),
                                 GetLogical (resp_Timestamp resp),
                                 GetSuffixBits (resp_Timestamp resp))))"
proof (intro conjI allI impI)
  show one: "sent (snd (snd call)) = [req]"
    unfolding n_def req_def call_def by (rule sent_ProcessTSORequests)
  { assume "n < 2 ^ 32"
    then have "unat (of_nat n :: uint32) = n"
      by (simp add: unat_of_nat take_bit_nat_eq_self)
    then show "map (\<lambda>r. unat (Count r)) (sent (snd (snd call))) = [n]"
      by (simp add: one req_def) }
  fix s1 resp s2
  assume h: "Send tsoStream s req = (None, s1) \<and> Recv tsoStream s1 = (Inr resp, s2)"
  have unf: "call =
      (if resp_Count resp \<noteq> of_nat n then (Inl errTSOLength, s2, [SendCall req, RecvCall])
       else (Inr (GetPhysical (resp_Timestamp resp), GetLogical (resp_Timestamp resp),
                  GetSuffixBits (resp_Timestamp resp)), s2, [SendCall req, RecvCall]))"
    using h unfolding call_def req_def n_def
    by (simp add: ProcessTSORequests_def Let_def ucast_count requestHeader_def GetCount_def
        GetTimestamp_def)
  { assume "resp_Count resp \<noteq> of_nat n"
    then show "fst call = Inl errTSOLength"
      by (simp add: unf) }
  { assume "resp_Count resp = of_nat n"
    then show "fst call = Inr (GetPhysical (resp_Timestamp resp),
        GetLogical (resp_Timestamp resp), GetSuffixBits (resp_Timestamp resp))"
      by (simp add: unf) }
qed

text \<open>
  The theorem at a batch of two requests, on a stream that accepts the request and
  answers with count 2 and the timestamp (100, 7, 0).
\<close>

theorem C2_ProcessTSORequests_witness:
  "fst (ProcessTSORequests
      \<lparr> Send = (\<lambda>s r. (None, s)),
        Recv = (\<lambda>s. (Inr \<lparr> resp_Count = 2,
                 resp_Timestamp = Some \<lparr> Physical = 100, Logical = 7, SuffixBits = 0 \<rparr> \<rparr>, s)) \<rparr>
      \<lparr> urls = [''a''], primary = Some ''a'', secondaries = None, tso_clusterID = 5,
        clientConns = (Map.empty :: string \<rightharpoonup> unit), tsoAllocators = Map.empty,
        primarySwitchedCallbacks = [], membersChangedCallbacks = [] \<rparr>
      (0 :: nat) ''global'' [(), ()])
    = Inr (100, 7, 0)
   \<and> map (\<lambda>r. unat (Count r)) (sent (snd (snd (ProcessTSORequests
      \<lparr> Send = (\<lambda>s r. (None, s)),
        Recv = (\<lambda>s. (Inr \<lparr> resp_Count = 2,
                 resp_Timestamp = Some \<lparr> Physical = 100, Logical = 7, SuffixBits = 0 \<rparr> \<rparr>, s)) \<rparr>
      \<lparr> urls = [''a''], primary = Some ''a'', secondaries = None, tso_clusterID = 5,
        clientConns = (Map.empty :: string \<rightharpoonup> unit), tsoAllocators = Map.empty,
        primarySwitchedCallbacks = [], membersChangedCallbacks = [] \<rparr>
      (0 :: nat) ''global'' [(), ()])))) = [2]"
  using C2_ProcessTSORequests [where requests = "[(), ()]" and s = "0 :: nat"
      and dcLocation = "''global''"
      and tsoStream = "\<lparr> Send = (\<lambda>s r. (None, s)),
        Recv = (\<lambda>s. (Inr \<lparr> resp_Count = 2,
                 resp_Timestamp = Some \<lparr> Physical = 100, Logical = 7, SuffixBits = 0 \<rparr> \<rparr>, s)) \<rparr>"
      and c = "\<lparr> urls = [''a''], primary = Some ''a'', secondaries = None, tso_clusterID = 5,
        clientConns = (Map.empty :: string \<rightharpoonup> unit), tsoAllocators = Map.empty,
        primarySwitchedCallbacks = [], membersChangedCallbacks = [] \<rparr>"]
  by (simp add: GetPhysical_def GetLogical_def GetSuffixBits_def)

subsection \<open>GetTSOAllocatorClientConnByDCLocation\<close>

lemma GetOrCreateGRPCConn_stores:
  assumes "GetOrCreateGRPCConn env c addr = (Inr cc, c')"
  shows "clientConns c' addr = Some cc"
  using assms
  by (auto simp: GetOrCreateGRPCConn_def split: option.splits sum.splits)

lemma GetOrCreateGRPCConn_keeps:
  assumes "GetOrCreateGRPCConn env c addr = (r, c')"
  shows "tsoAllocators c' = tsoAllocators c" and "primary c' = primary c"
    and "clientConns c a \<noteq> None \<Longrightarrow> clientConns c' a \<noteq> None"
  using assms
  by (auto simp: GetOrCreateGRPCConn_def split: option.splits sum.splits)

lemma switchPrimary_stored:
  assumes "switchPrimary env c0 addrs = (r, c, cbs)"
    and "tsoAllocators c dc = Some url"
    and "tsoAllocators c0 dc \<noteq> Some url"
  shows "clientConns c url \<noteq> None"
proof (cases addrs)
  case Nil
  with assms show ?thesis by (simp add: switchPrimary_def)
next
  case (Cons addr rest)
  show ?thesis
  proof (cases "addr = getPrimaryAddr c0")
    case True
    with assms Cons show ?thesis by (simp add: switchPrimary_def)
  next
    case False
    obtain r1 c1 where g: "GetOrCreateGRPCConn env c0 addr = (r1, c1)"
      by (cases "GetOrCreateGRPCConn env c0 addr")
    show ?thesis
    proof (cases r1)
      case (Inl err)
      with assms Cons False g GetOrCreateGRPCConn_keeps(1) [OF g] show ?thesis
        by (simp add: switchPrimary_def)
    next
      case (Inr cc)
      with g have "clientConns c1 addr = Some cc"
        by (simp add: GetOrCreateGRPCConn_stores)
      with assms Cons False g Inr GetOrCreateGRPCConn_keeps(1) [OF g] show ?thesis
        by (auto simp: switchPrimary_def split: if_splits)
    qed
  qed
qed

lemma switchPrimary_keeps:
  assumes "switchPrimary env c0 addrs = (r, c, cbs)"
    and "clientConns c0 a \<noteq> None"
  shows "clientConns c a \<noteq> None"
proof (cases addrs)
  case Nil
  with assms show ?thesis by (simp add: switchPrimary_def)
next
  case (Cons addr rest)
  obtain r1 c1 where g: "GetOrCreateGRPCConn env c0 addr = (r1, c1)"
    by (cases "GetOrCreateGRPCConn env c0 addr")
  from GetOrCreateGRPCConn_keeps(3) [OF g assms(2)] have "clientConns c1 a \<noteq> None" .
  with assms Cons g show ?thesis
    by (cases r1) (auto simp: switchPrimary_def Let_def split: if_splits)
qed

lemma reachable_conns:
  assumes "reachable c" and "tsoAllocators c dc = Some url"
  shows "clientConns c url \<noteq> None"
  using assms
proof (induction arbitrary: dc url rule: reachable.induct)
  case (new env us c)
  let ?bc = "\<lparr> urls = us, primary = None, secondaries = None, tso_clusterID = 0,
                clientConns = Map.empty, tsoAllocators = Map.empty,
                primarySwitchedCallbacks = [], membersChangedCallbacks = [] \<rparr>
              :: 'a tsoBaseClient"
  obtain r1 bc1 cbs where sw: "switchPrimary env ?bc us = (r1, bc1, cbs)"
    by (cases "switchPrimary env ?bc us")
  obtain r2 bc2 where g: "GetOrCreateGRPCConn env bc1 (getPrimaryAddr bc1) = (r2, bc2)"
    by (cases "GetOrCreateGRPCConn env bc1 (getPrimaryAddr bc1)")
  from new.hyps sw g have c: "c = bc2"
    by (auto simp: newTSOBaseClient_def split: sum.splits)
  with new.prems GetOrCreateGRPCConn_keeps(1) [OF g]
  have "tsoAllocators bc1 dc = Some url" by simp
  with sw have "clientConns bc1 url \<noteq> None"
    by (rule switchPrimary_stored) simp
  with g c show ?case
    by (simp add: GetOrCreateGRPCConn_keeps(3))
next
  case (switch c env addrs r c' cbs)
  show ?case
  proof (cases "tsoAllocators c dc = Some url")
    case True
    then have "clientConns c url \<noteq> None" by (rule switch.IH)
    with switch.hyps(2) show ?thesis by (rule switchPrimary_keeps)
  next
    case False
    with switch.hyps(2) switch.prems show ?thesis by (rule switchPrimary_stored)
  qed
next
  case (conn c env addr r' c')
  from conn.prems GetOrCreateGRPCConn_keeps(1) [OF conn.hyps(2)]
  have "tsoAllocators c dc = Some url" by simp
  then have "clientConns c url \<noteq> None" by (rule conn.IH)
  with conn.hyps(2) show ?case by (simp add: GetOrCreateGRPCConn_keeps(3))
qed

lemma GetTSOAllocatorClientConnByDCLocation_found:
  assumes "tsoAllocators c dc = Some url" and "clientConns c url \<noteq> None"
  shows "\<exists>cc. clientConns c url = Some cc
    \<and> GetTSOAllocatorClientConnByDCLocation c dc = Inr (cc, url)"
  using assms by (auto simp: GetTSOAllocatorClientConnByDCLocation_def)

text \<open>
  Claim C10. GetTSOAllocatorClientConnByDCLocation panics when the dc-location has no entry
  in tsoAllocators, and when the stored allocator URL has no connection in clientConns.
  When the entry of the dc-location was stored by switchPrimary, which creates and stores
  the connection before it stores the entry, neither panic can happen and the function
  returns that connection and URL; this holds right after the call of switchPrimary and
  in every client built by newTSOBaseClient, switchPrimary and GetOrCreateGRPCConn.
\<close>

theorem C10_GetTSOAllocatorClientConnByDCLocation:
  "(tsoAllocators c dc = None \<longrightarrow>
      GetTSOAllocatorClientConnByDCLocation c dc =
        Inl (''the allocator leader in '' @ dc @ '' should exist''))
   \<and> (\<forall>url. tsoAllocators c dc = Some url \<and> clientConns c url = None \<longrightarrow>
        GetTSOAllocatorClientConnByDCLocation c dc =
          Inl (''the client connection of '' @ url @ '' in '' @ dc @ '' should exist''))
   \<and> (\<forall>env c0 addrs r cbs url.
        switchPrimary env c0 addrs = (r, c, cbs) \<and> tsoAllocators c dc = Some url
        \<and> tsoAllocators c0 dc \<noteq> Some url \<longrightarrow>
        (\<exists>cc. clientConns c url = Some cc
           \<and> GetTSOAllocatorClientConnByDCLocation c dc = Inr (cc, url)))
   \<and> (reachable c \<longrightarrow>
        (\<forall>url. tsoAllocators c dc = Some url \<longrightarrow>
          (\<exists>cc. clientConns c url = Some cc
             \<and> GetTSOAllocatorClientConnByDCLocation c dc = Inr (cc, url))))"
proof (intro conjI allI impI)
  assume "tsoAllocators c dc = None"
  then show "GetTSOAllocatorClientConnByDCLocation c dc =
      Inl (''the allocator leader in '' @ dc @ '' should exist'')"
    by (simp add: GetTSOAllocatorClientConnByDCLocation_def)
next
  fix url
  assume "tsoAllocators c dc = Some url \<and> clientConns c url = None"
  then show "GetTSOAllocatorClientConnByDCLocation c dc =
      Inl (''the client connection of '' @ url @ '' in '' @ dc @ '' should exist'')"
    by (simp add: GetTSOAllocatorClientConnByDCLocation_def)
next
  fix env :: "'a dialer" and c0 addrs r cbs url
  assume h: "switchPrimary env c0 addrs = (r, c, cbs) \<and> tsoAllocators c dc = Some url
    \<and> tsoAllocators c0 dc \<noteq> Some url"
  then have "clientConns c url \<noteq> None"
    using switchPrimary_stored by blast
  with h show "\<exists>cc. clientConns c url = Some cc
      \<and> GetTSOAllocatorClientConnByDCLocation c dc = Inr (cc, url)"
    by (simp add: GetTSOAllocatorClientConnByDCLocation_found)
next
  fix url
  assume r: "reachable c" and t: "tsoAllocators c dc = Some url"
  then have "clientConns c url \<noteq> None" by (rule reachable_conns)
  with t show "\<exists>cc. clientConns c url = Some cc
      \<and> GetTSOAllocatorClientConnByDCLocation c dc = Inr (cc, url)"
    by (rule GetTSOAllocatorClientConnByDCLocation_found)
qed

text \<open>
  The theorem at the client that newTSOBaseClient builds for the URL pd1, with a dialer
  that connects to every address (the connection to an address is the address after a hash sign): the global
  allocator is found with its connection, and the dc-location dc-1, never stored, panics.
\<close>

theorem C10_GetTSOAllocatorClientConnByDCLocation_witness:
  "reachable \<lparr> urls = [''pd1''], primary = Some ''pd1'', secondaries = None, tso_clusterID = 0,
       clientConns = [''pd1'' \<mapsto> ''#pd1''], tsoAllocators = [''global'' \<mapsto> ''pd1''],
       primarySwitchedCallbacks = [], membersChangedCallbacks = [] \<rparr>
   \<and> GetTSOAllocatorClientConnByDCLocation
       \<lparr> urls = [''pd1''], primary = Some ''pd1'', secondaries = None, tso_clusterID = 0,
         clientConns = [''pd1'' \<mapsto> ''#pd1''], tsoAllocators = [''global'' \<mapsto> ''pd1''],
         primarySwitchedCallbacks = [], membersChangedCallbacks = [] \<rparr> ''global''
       = Inr (''#pd1'', ''pd1'')
   \<and> GetTSOAllocatorClientConnByDCLocation
       \<lparr> urls = [''pd1''], primary = Some ''pd1'', secondaries = None, tso_clusterID = 0,
         clientConns = [''pd1'' \<mapsto> ''#pd1''], tsoAllocators = [''global'' \<mapsto> ''pd1''],
         primarySwitchedCallbacks = [], membersChangedCallbacks = [] \<rparr> ''dc-1''
       = Inl ''the allocator leader in dc-1 should exist''"
proof -
  let ?c = "\<lparr> urls = [''pd1''], primary = Some ''pd1'', secondaries = None, tso_clusterID = 0,
       clientConns = [''pd1'' \<mapsto> ''#pd1''], tsoAllocators = [''global'' \<mapsto> ''pd1''],
       primarySwitchedCallbacks = [], membersChangedCallbacks = [] \<rparr>"
  have "newTSOBaseClient \<lparr> ToTLSConfig = None, GetClientConn = (\<lambda>a. Inr (CHR ''#'' # a)) \<rparr>
      [''pd1''] = Inr (Some ?c)"
    by (simp add: newTSOBaseClient_def switchPrimary_def GetOrCreateGRPCConn_def
        getPrimaryAddr_def globalDCLocation_def)
  then have r: "reachable ?c" by (rule reachable.new)
  have g: "tsoAllocators ?c ''global'' = Some ''pd1''" by simp
  have d: "tsoAllocators ?c ''dc-1'' = None" by simp
  from r g C10_GetTSOAllocatorClientConnByDCLocation [of ?c "''global''"]
  have 1: "GetTSOAllocatorClientConnByDCLocation ?c ''global'' = Inr (''#pd1'', ''pd1'')"
    by simp
  from d C10_GetTSOAllocatorClientConnByDCLocation [of ?c "''dc-1''"]
  have 2: "GetTSOAllocatorClientConnByDCLocation ?c ''dc-1''
      = Inl ''the allocator leader in dc-1 should exist''"
    by simp
  from r 1 2 show ?thesis by simp
qed

subsection \<open>GetLocalTSWithinKeyspaceAsync\<close>

text \<open>
  Claim C9. In GetLocalTSWithinKeyspaceAsync, when the first dispatchRequest succeeds
  nothing else is done. When it fails, the method sleeps 50 ms and calls dispatchRequest
  once more, with the same request, and never a third time. An error is put on the done
  channel of the returned future exactly when both calls fail, and it is the error of the
  second. In every case the method returns the future, the request it filled in; it has no
  error result.
\<close>

theorem C9_GetLocalTSWithinKeyspaceAsync:
  fixes c :: "('st, 'ctx) tso_dispatch_client" and st :: 'st and pooled :: "'ctx tsoRequest"
    and ctx :: 'ctx and now :: int and dcLoc :: string and ksID :: uint32
  defines "req \<equiv> pooled\<lparr> requestCtx := startSpan c ctx, clientCtx := c_ctx c, start := now,
                         req_dcLocation := dcLoc, keyspaceID := ksID \<rparr>"
  defines "res \<equiv> GetLocalTSWithinKeyspaceAsync c st pooled now ctx dcLoc ksID"
  shows "(\<forall>st1. dispatchRequest c st dcLoc req = (None, st1) \<longrightarrow>
            res = (req, st1, [Dispatch]))
    \<and> (\<forall>e1 st1 st2. dispatchRequest c st dcLoc req = (Some e1, st1)
            \<and> dispatchRequest c st1 dcLoc req = (None, st2) \<longrightarrow>
            res = (req, st2, [Dispatch, Sleep (50 * Millisecond), Dispatch]))
    \<and> (\<forall>e1 st1 e2 st2. dispatchRequest c st dcLoc req = (Some e1, st1)
            \<and> dispatchRequest c st1 dcLoc req = (Some e2, st2) \<longrightarrow>
            res = (req\<lparr> done_ch := done_ch pooled @ [Some e2] \<rparr>, st2,
                   [Dispatch, Sleep (50 * Millisecond), Dispatch]))
    \<and> length (filter (\<lambda>e. e = Dispatch) (snd (snd res))) \<le> 2
    \<and> ((done_ch (fst res) \<noteq> done_ch pooled) =
         (\<exists>e1 st1 e2 st2. dispatchRequest c st dcLoc req = (Some e1, st1)
            \<and> dispatchRequest c st1 dcLoc req = (Some e2, st2)))
    \<and> req_dcLocation (fst res) = dcLoc \<and> keyspaceID (fst res) = ksID
    \<and> start (fst res) = now \<and> clientCtx (fst res) = c_ctx c
    \<and> requestCtx (fst res) = startSpan c ctx"
proof -
  obtain r1 st1 where d1: "dispatchRequest c st dcLoc req = (r1, st1)"
    by (cases "dispatchRequest c st dcLoc req")
  obtain r2 st2 where d2: "dispatchRequest c st1 dcLoc req = (r2, st2)"
    by (cases "dispatchRequest c st1 dcLoc req")
  have unf: "res =
      (case r1 of None \<Rightarrow> (req, st1, [Dispatch])
       | Some e1 \<Rightarrow>
           (case r2 of None \<Rightarrow> (req, st2, [Dispatch, Sleep (50 * Millisecond), Dispatch])
            | Some e2 \<Rightarrow> (req\<lparr> done_ch := done_ch pooled @ [Some e2] \<rparr>, st2,
                           [Dispatch, Sleep (50 * Millisecond), Dispatch])))"
    using d1 d2 unfolding res_def GetLocalTSWithinKeyspaceAsync_def Let_def req_def [symmetric]
    by (simp add: req_def split: option.splits)
  show ?thesis
    using d1 d2 by (cases r1; cases r2) (auto simp: unf req_def)
qed

theorem C9_GetLocalTSWithinKeyspaceAsync_witness:
  "GetLocalTSWithinKeyspaceAsync
     \<lparr> dispatchRequest = (\<lambda>st dc r. (if st < 2 then Some (External ''no stream'') else None,
                                      Suc st)),
       startSpan = (\<lambda>x. x), c_ctx = () \<rparr>
     (0 :: nat)
     \<lparr> requestCtx = (), clientCtx = (), start = 0, req_dcLocation = [], keyspaceID = 0,
       done_ch = [] \<rparr>
     17 () ''global'' 1
   = (\<lparr> requestCtx = (), clientCtx = (), start = 17, req_dcLocation = ''global'',
        keyspaceID = 1, done_ch = [Some (External ''no stream'')] \<rparr>,
      2, [Dispatch, Sleep 50000000, Dispatch])"
  using C9_GetLocalTSWithinKeyspaceAsync [where st = "0 :: nat" and now = 17 and ctx = "()"
      and dcLoc = "''global''" and ksID = 1
      and pooled = "\<lparr> requestCtx = (), clientCtx = (), start = 0, req_dcLocation = [],
        keyspaceID = 0, done_ch = [] \<rparr>"
      and c = "\<lparr> dispatchRequest =
          (\<lambda>st dc r. (if st < 2 then Some (External ''no stream'') else None, Suc st)),
        startSpan = (\<lambda>x. x), c_ctx = () \<rparr>"]
  by (simp add: Millisecond_ns)

subsection \<open>initClusterID\<close>

lemma getMembers_state:
  assumes "getMembers env c u = (r, c1)"
  shows "c1 = c \<or> c1 = c\<lparr> pd_clientConns := insert u (pd_clientConns c) \<rparr>"
  using assms
  by (auto simp: getMembers_def pd_GetOrCreateGRPCConn_def split: if_splits option.splits sum.splits)

lemma getMembers_clusterID:
  assumes "getMembers env c u = (r, c1)"
  shows "pd_clusterID c1 = pd_clusterID c"
  using getMembers_state [OF assms] by auto

lemma initClusterID_loop_clusterID:
  "pd_clusterID (snd (initClusterID_loop env us clusterID c)) = pd_clusterID c"
proof (induction us arbitrary: clusterID c)
  case Nil
  show ?case by simp
next
  case (Cons u us)
  obtain r c1 where g: "getMembers env c u = (r, c1)"
    by (cases "getMembers env c u")
  from getMembers_clusterID [OF g] Cons.IH [of _ c1] g show ?case
    by (cases r) (auto simp: Let_def)
qed

lemma initClusterID_loop_result:
  "fst (initClusterID_loop env us clusterID c) =
     (if clusterID = 0
      then (case dropWhile (\<lambda>x. x = 0) (headerIDs (replies env c us)) of
              [] \<Rightarrow> Inr 0
            | x # xs \<Rightarrow> if list_all (\<lambda>y. y = x) xs then Inr x else Inl errUnmatchedClusterID)
      else if list_all (\<lambda>y. y = clusterID) (headerIDs (replies env c us)) then Inr clusterID
           else Inl errUnmatchedClusterID)"
proof (induction us arbitrary: clusterID c)
  case Nil
  show ?case by simp
next
  case (Cons u us)
  obtain r c1 where g: "getMembers env c u = (r, c1)"
    by (cases "getMembers env c u")
  show ?case
  proof (cases r)
    case (Inl err)
    with g Cons.IH [of clusterID c1] show ?thesis by simp
  next
    case (Inr members)
    show ?thesis
    proof (cases "GetHeader members = None")
      case True
      with g Inr Cons.IH [of clusterID c1] show ?thesis by simp
    next
      case False
      then obtain h where h: "GetHeader members = Some h" by auto
      let ?id = "GetClusterId (GetHeader members)"
      have ids: "headerIDs (replies env c (u # us)) = ?id # headerIDs (replies env c1 us)"
        using g Inr h by simp
      show ?thesis
      proof (cases "clusterID = 0")
        case True
        have eq: "initClusterID_loop env (u # us) clusterID c =
            initClusterID_loop env us ?id c1"
          using g Inr h True by simp
        show ?thesis unfolding eq ids Cons.IH [of ?id c1]
          using True by simp
      next
        case nz: False
        show ?thesis
        proof (cases "?id = clusterID")
          case True
          have eq: "initClusterID_loop env (u # us) clusterID c =
              initClusterID_loop env us clusterID c1"
            using g Inr h nz True by simp
          show ?thesis unfolding eq ids Cons.IH [of clusterID c1]
            using nz True by simp
        next
          case ne: False
          have eq: "initClusterID_loop env (u # us) clusterID c =
              (Inl errUnmatchedClusterID, c1)"
            using g Inr h nz ne by simp
          show ?thesis unfolding eq ids
            using nz ne by simp
        qed
      qed
    qed
  qed
qed

text \<open>
  Claim C4, amended. In initClusterID the local cluster id starts at 0, and 0 is its mark
  for "not known yet". Take the cluster ids of the replies that succeed with a header, in
  the order of the URLs, and skip the leading zeros. If nothing is left, the function
  returns errFailInitClusterID and leaves the stored cluster id as it was. Otherwise the
  first id left, the first non-zero one, is the local cluster id: if every later reply
  with a header carries the same id the function succeeds and stores that id, and if one
  of them carries another id (zero included) it returns errUnmatchedClusterID and leaves
  the stored cluster id as it was.
\<close>

theorem C4_initClusterID_amended:
  fixes env :: pd_env and c :: pdServiceDiscovery
  defines "ids \<equiv> headerIDs (replies env c (GetURLs c))"
  shows "fst (initClusterID env c) =
           (case dropWhile (\<lambda>x. x = 0) ids of
              [] \<Rightarrow> Some errFailInitClusterID
            | x # xs \<Rightarrow> if list_all (\<lambda>y. y = x) xs then None
                        else Some errUnmatchedClusterID)
    \<and> pd_clusterID (snd (initClusterID env c)) =
           (case dropWhile (\<lambda>x. x = 0) ids of
              [] \<Rightarrow> pd_clusterID c
            | x # xs \<Rightarrow> if list_all (\<lambda>y. y = x) xs then x else pd_clusterID c)"
proof -
  obtain r c1 where l: "initClusterID_loop env (GetURLs c) 0 c = (r, c1)"
    by (cases "initClusterID_loop env (GetURLs c) 0 c")
  from l initClusterID_loop_clusterID [of env "GetURLs c" 0 c]
  have k: "pd_clusterID c1 = pd_clusterID c" by simp
  from l initClusterID_loop_result [of env "GetURLs c" 0 c]
  have r: "r = (case dropWhile (\<lambda>x. x = 0) ids of
              [] \<Rightarrow> Inr 0
            | x # xs \<Rightarrow> if list_all (\<lambda>y. y = x) xs then Inr x
                        else Inl errUnmatchedClusterID)"
    by (simp add: ids_def)
  have nz: "dropWhile (\<lambda>x. x = 0) ids = x # xs \<Longrightarrow> x \<noteq> 0" for x xs
    using hd_dropWhile [of "\<lambda>x. x = 0" ids] by auto
  show ?thesis
  proof (cases "dropWhile (\<lambda>x. x = 0) ids")
    case Nil
    have "r = Inr 0" unfolding r Nil by simp
    with l have "initClusterID env c = (Some errFailInitClusterID, c1)"
      by (simp add: initClusterID_def)
    then show ?thesis unfolding Nil by (simp add: k)
  next
    case (Cons x xs)
    have "r = (if list_all (\<lambda>y. y = x) xs then Inr x else Inl errUnmatchedClusterID)"
      unfolding r Cons by simp
    with l nz [OF Cons]
    have "initClusterID env c =
        (if list_all (\<lambda>y. y = x) xs then (None, c1\<lparr> pd_clusterID := x \<rparr>)
         else (Some errUnmatchedClusterID, c1))"
      by (simp add: initClusterID_def)
    then show ?thesis unfolding Cons by (simp add: k)
  qed
qed


text \<open>
  Claim C4 as stated fails when the first successful reply carries the cluster id 0: with
  the URLs a and b, both answering with a header, a with cluster id 0 and b with 5, the
  function succeeds and stores 5, not the id of the first successful reply.
\<close>

theorem C4_initClusterID_counterexample:
  "headerIDs (replies (cluster_by_id (\<lambda>url. if url = ''a'' then 0 else 5))
      (newPDServiceDiscovery [''a'', ''b'']) [''a'', ''b'']) = [0, 5]
   \<and> fst (initClusterID (cluster_by_id (\<lambda>url. if url = ''a'' then 0 else 5))
      (newPDServiceDiscovery [''a'', ''b''])) = None
   \<and> pd_clusterID (snd (initClusterID (cluster_by_id (\<lambda>url. if url = ''a'' then 0 else 5))
      (newPDServiceDiscovery [''a'', ''b'']))) = 5"
  by (simp add: initClusterID_def GetURLs_def newPDServiceDiscovery_def cluster_by_id_def
      getMembers_def pd_GetOrCreateGRPCConn_def GetHeader_def GetClusterId_def GetError_def)

text \<open>
  The amended claim at two inputs: the ids 0, 5, 5 (success, 5 is stored) and the ids
  5, 7 (errUnmatchedClusterID).
\<close>

theorem C4_initClusterID_amended_witness:
  "fst (initClusterID (cluster_by_id (\<lambda>url. if url = ''a'' then 0 else 5))
      (newPDServiceDiscovery [''a'', ''b'', ''c''])) = None
   \<and> pd_clusterID (snd (initClusterID (cluster_by_id (\<lambda>url. if url = ''a'' then 0 else 5))
      (newPDServiceDiscovery [''a'', ''b'', ''c'']))) = 5
   \<and> fst (initClusterID (cluster_by_id (\<lambda>url. if url = ''a'' then 7 else 5))
      (newPDServiceDiscovery [''b'', ''a''])) = Some errUnmatchedClusterID"
  using C4_initClusterID_amended [of "cluster_by_id (\<lambda>url. if url = ''a'' then 0 else 5)"
      "newPDServiceDiscovery [''a'', ''b'', ''c'']"]
    C4_initClusterID_amended [of "cluster_by_id (\<lambda>url. if url = ''a'' then 7 else 5)"
      "newPDServiceDiscovery [''b'', ''a'']"]
  by (simp add: GetURLs_def newPDServiceDiscovery_def cluster_by_id_def
      getMembers_def pd_GetOrCreateGRPCConn_def GetHeader_def GetClusterId_def GetError_def)

subsection \<open>updateMember\<close>

lemma updateMember_loop_unusable:
  "(\<forall>r \<in> set (replies env c us).
      case r of
        Inl err \<Rightarrow> True
      | Inr members \<Rightarrow>
          GetClusterId (GetHeader members) \<noteq> pd_clusterID c
          \<or> GetLeader members = None
          \<or> GetClientUrls (GetLeader members) = [])
   \<Longrightarrow> (\<exists>e. fst (updateMember_loop env i us c) = Inr (Some e))
       \<and> ((\<forall>j. \<not> ctxDone env j) \<longrightarrow>
            fst (updateMember_loop env i us c) = Inr (Some ErrClientGetMember))"
proof (induction us arbitrary: i c)
  case Nil
  show ?case by simp
next
  case (Cons u us)
  obtain r c1 where g: "getMembers env c u = (r, c1)"
    by (cases "getMembers env c u")
  from getMembers_clusterID [OF g] have k: "pd_clusterID c1 = pd_clusterID c" .
  from Cons.prems g k
  have rest: "\<forall>r \<in> set (replies env c1 us).
      case r of
        Inl err \<Rightarrow> True
      | Inr members \<Rightarrow>
          GetClusterId (GetHeader members) \<noteq> pd_clusterID c1
          \<or> GetLeader members = None
          \<or> GetClientUrls (GetLeader members) = []"
    unfolding k by simp
  note IH = Cons.IH [OF rest, of "Suc i"]
  show ?case
  proof (cases r)
    case (Inl err)
    with g IH show ?thesis by simp
  next
    case (Inr members)
    with Cons.prems g k
    have bad: "GetClusterId (GetHeader members) \<noteq> pd_clusterID c1
          \<or> GetLeader members = None
          \<or> GetClientUrls (GetLeader members) = []"
      by simp
    with g Inr IH show ?thesis by (auto simp: Let_def)
  qed
qed


text \<open>
  Claim C3, amended. In updateMember a GetMembers reply whose header cluster id differs
  from the local cluster id makes its URL fail like one that cannot be reached: the error
  "cluster id does not match" is returned only if the client's context is done at that
  moment, and otherwise the loop goes on with the next URL, in a client that differs from
  the one before at most by the connection to the failed URL. When the reply of every URL
  is unusable (getMembers fails, or the cluster id of the reply differs from the local
  one, or the reply names no leader with a client URL), the update returns an error, and
  with a context that is never done this error is ErrClientGetMember; so it is after the
  last URL, and for a client without URLs.
\<close>

theorem C3_updateMember_amended:
  "(getMembers env c u = (Inr members, c1)
      \<and> GetClusterId (GetHeader members) \<noteq> pd_clusterID c \<longrightarrow>
        updateMember_loop env i (u # us) c =
           (if ctxDone env i
            then (Inr (Some (ErrClientUpdateMember ''cluster id does not match'')), c1)
            else updateMember_loop env (Suc i) us c1)
        \<and> c1 = c\<lparr> pd_clientConns := insert u (pd_clientConns c) \<rparr>)
   \<and> ((\<forall>r \<in> set (replies env c us).
          case r of
            Inl err \<Rightarrow> True
          | Inr reply \<Rightarrow>
              GetClusterId (GetHeader reply) \<noteq> pd_clusterID c
              \<or> GetLeader reply = None
              \<or> GetClientUrls (GetLeader reply) = []) \<longrightarrow>
        (\<exists>e. fst (updateMember_loop env i us c) = Inr (Some e))
        \<and> ((\<forall>j. \<not> ctxDone env j) \<longrightarrow>
              fst (updateMember_loop env i us c) = Inr (Some ErrClientGetMember)))
   \<and> updateMember_loop env i [] c = (Inr (Some ErrClientGetMember), c)
   \<and> updateMember env c = updateMember_loop env 0 (GetURLs c) c"
proof (intro conjI impI)
  assume a: "getMembers env c u = (Inr members, c1)
      \<and> GetClusterId (GetHeader members) \<noteq> pd_clusterID c"
  then have g: "getMembers env c u = (Inr members, c1)"
    and m: "GetClusterId (GetHeader members) \<noteq> pd_clusterID c"
    by simp_all
  from g have k: "pd_clusterID c1 = pd_clusterID c"
    by (rule getMembers_clusterID)
  with g m show "updateMember_loop env i (u # us) c =
           (if ctxDone env i
            then (Inr (Some (ErrClientUpdateMember ''cluster id does not match'')), c1)
            else updateMember_loop env (Suc i) us c1)"
    by (simp add: Let_def)
  from g show "c1 = c\<lparr> pd_clientConns := insert u (pd_clientConns c) \<rparr>"
    by (auto simp: getMembers_def pd_GetOrCreateGRPCConn_def insert_absorb
        split: if_splits option.splits sum.splits)
next
  assume "\<forall>r \<in> set (replies env c us).
          case r of
            Inl err \<Rightarrow> True
          | Inr reply \<Rightarrow>
              GetClusterId (GetHeader reply) \<noteq> pd_clusterID c
              \<or> GetLeader reply = None
              \<or> GetClientUrls (GetLeader reply) = []"
  from updateMember_loop_unusable [OF this, of i]
  show "\<exists>e. fst (updateMember_loop env i us c) = Inr (Some e)"
    and "\<forall>j. \<not> ctxDone env j \<Longrightarrow>
      fst (updateMember_loop env i us c) = Inr (Some ErrClientGetMember)"
    by simp_all
next
  show "updateMember_loop env i [] c = (Inr (Some ErrClientGetMember), c)"
    by simp
  show "updateMember env c = updateMember_loop env 0 (GetURLs c) c"
    by (simp add: updateMember_def)
qed

text \<open>
  Claim C3 as stated fails: with the local cluster id 1 and the URLs a and b, where a
  answers with cluster id 2 and b with cluster id 1 and a leader at b, the update
  succeeds through b, and b becomes the leader.
\<close>

theorem C3_updateMember_counterexample:
  "(\<exists>members c1.
      getMembers (cluster_by_id (\<lambda>url. if url = ''a'' then 2 else 1))
        ((newPDServiceDiscovery [''a'', ''b''])\<lparr> pd_clusterID := 1 \<rparr>) ''a'' = (Inr members, c1)
      \<and> GetClusterId (GetHeader members) = 2)
   \<and> fst (updateMember (cluster_by_id (\<lambda>url. if url = ''a'' then 2 else 1))
        ((newPDServiceDiscovery [''a'', ''b''])\<lparr> pd_clusterID := 1 \<rparr>)) = Inr None
   \<and> pd_leader (snd (updateMember (cluster_by_id (\<lambda>url. if url = ''a'' then 2 else 1))
        ((newPDServiceDiscovery [''a'', ''b''])\<lparr> pd_clusterID := 1 \<rparr>))) = Some ''b''"
  by (simp add: updateMember_def GetURLs_def newPDServiceDiscovery_def cluster_by_id_def
      getMembers_def pd_GetOrCreateGRPCConn_def GetHeader_def GetClusterId_def GetError_def
      GetLeader_def GetClientUrls_def GetMemberId_def switchTSOAllocatorLeaders_def
      switchTSOAllocatorLeader_def updateURLs_def updateFollowers_def switchLeader_def
      getLeaderAddr_def Let_def)

text \<open>
  The amended claim at two inputs, for the local cluster id 1 and the URLs a and b. Where
  a answers with cluster id 2 and b with cluster id 1 and a leader at b, the update goes
  on with b, after the mismatching reply of a, in the client that has gained the
  connection to a, and it succeeds. Where both answer with cluster id 2, the update fails
  with ErrClientGetMember.
\<close>

theorem C3_updateMember_amended_witness:
  "updateMember_loop (cluster_by_id (\<lambda>url. if url = ''a'' then 2 else 1)) 0 [''a'', ''b'']
      ((newPDServiceDiscovery [''a'', ''b''])\<lparr> pd_clusterID := 1 \<rparr>)
   = updateMember_loop (cluster_by_id (\<lambda>url. if url = ''a'' then 2 else 1)) 1 [''b'']
      ((newPDServiceDiscovery [''a'', ''b''])\<lparr> pd_clusterID := 1, pd_clientConns := {''a''} \<rparr>)
   \<and> fst (updateMember_loop (cluster_by_id (\<lambda>url. if url = ''a'' then 2 else 1)) 0
        [''a'', ''b''] ((newPDServiceDiscovery [''a'', ''b''])\<lparr> pd_clusterID := 1 \<rparr>))
     = Inr None
   \<and> fst (updateMember (cluster_by_id (\<lambda>url. 2))
        ((newPDServiceDiscovery [''a'', ''b''])\<lparr> pd_clusterID := 1 \<rparr>))
     = Inr (Some ErrClientGetMember)"
proof -
  let ?E = "cluster_by_id (\<lambda>url. if url = ''a'' then 2 else 1)"
  let ?F = "cluster_by_id (\<lambda>url. 2)"
  let ?C = "(newPDServiceDiscovery [''a'', ''b''])\<lparr> pd_clusterID := 1 \<rparr>"
  let ?R = "\<lparr> members_Header = Some \<lparr> header_ClusterId = 2, header_Error = None \<rparr>,
             Members = [\<lparr> MemberId = 1, ClientUrls = [''b''] \<rparr>],
             Leader = Some \<lparr> MemberId = 1, ClientUrls = [''b''] \<rparr>,
             TsoAllocatorLeaders = [] \<rparr>"
  have g: "getMembers ?E ?C ''a'' = (Inr ?R, ?C\<lparr> pd_clientConns := {''a''} \<rparr>)"
    by (simp add: cluster_by_id_def newPDServiceDiscovery_def getMembers_def
        pd_GetOrCreateGRPCConn_def GetHeader_def GetError_def)
  have m: "GetClusterId (GetHeader ?R) \<noteq> pd_clusterID ?C"
    by (simp add: GetHeader_def GetClusterId_def)
  from C3_updateMember_amended [of ?E ?C "''a''" ?R "?C\<lparr> pd_clientConns := {''a''} \<rparr>"
      0 "[''b'']"] g m
  have step: "updateMember_loop ?E 0 [''a'', ''b''] ?C =
      updateMember_loop ?E 1 [''b''] (?C\<lparr> pd_clientConns := {''a''} \<rparr>)"
    by (simp add: cluster_by_id_def)
  have rest: "fst (updateMember_loop ?E 1 [''b''] (?C\<lparr> pd_clientConns := {''a''} \<rparr>)) = Inr None"
    by (simp add: newPDServiceDiscovery_def cluster_by_id_def
      getMembers_def pd_GetOrCreateGRPCConn_def GetHeader_def GetClusterId_def GetError_def
      GetLeader_def GetClientUrls_def GetMemberId_def switchTSOAllocatorLeaders_def
      switchTSOAllocatorLeader_def updateURLs_def updateFollowers_def switchLeader_def
      getLeaderAddr_def Let_def)
  have bad: "\<forall>r \<in> set (replies ?F ?C (GetURLs ?C)).
          case r of
            Inl err \<Rightarrow> True
          | Inr reply \<Rightarrow>
              GetClusterId (GetHeader reply) \<noteq> pd_clusterID ?C
              \<or> GetLeader reply = None
              \<or> GetClientUrls (GetLeader reply) = []"
    by (simp add: GetURLs_def newPDServiceDiscovery_def cluster_by_id_def
      getMembers_def pd_GetOrCreateGRPCConn_def GetHeader_def GetClusterId_def GetError_def)
  have never: "\<forall>j. \<not> ctxDone ?F j"
    by (simp add: cluster_by_id_def)
  from C3_updateMember_amended [of ?F ?C "''a''" ?R ?C 0 "GetURLs ?C"] bad never
  have fail: "fst (updateMember ?F ?C) = Inr (Some ErrClientGetMember)"
    by simp
  from step rest fail show ?thesis
    by simp
qed

subsection \<open>load\<close>

lemma puts_append: "puts (xs @ ys) = puts xs @ puts ys"
  by (induction xs rule: puts.induct) simp_all

lemma gets_append: "gets (xs @ ys) = gets xs @ gets ys"
  by (induction xs rule: gets.induct) simp_all

lemma puts_map_PutEv: "puts (map PutEv xs) = xs"
  by (induction xs) simp_all

lemma gets_map_PutEv: "gets (map PutEv xs) = []"
  by (induction xs) simp_all

lemma load_items_all:
  "load_items put False xs (s, e, tr) =
     (s, (if xs = [] then e else put (last xs)), tr @ map PutEv xs)"
  by (induction xs arbitrary: s e tr) simp_all

lemma load_items_skip_last:
  "xs \<noteq> [] \<Longrightarrow> load_items put True xs (s, e, tr) =
     (Key (last xs), (if butlast xs = [] then e else put (last (butlast xs))),
      tr @ map PutEv (butlast xs))"
proof (induction xs arbitrary: s e tr)
  case Nil
  then show ?case by simp
next
  case (Cons x xs)
  show ?case
  proof (cases "xs = []")
    case True
    then show ?thesis by simp
  next
    case False
    with Cons.IH [of s "put x" "tr @ [PutEv x]"] show ?thesis
      by simp
  qed
qed

lemma filter_from_nth:
  fixes xs :: "KeyValue list"
  assumes "sorted_wrt (<) (map Key xs)" and "i < length xs"
  shows "filter (\<lambda>kv. Key (xs ! i) \<le> Key kv) xs = drop i xs"
  using assms
proof (induction xs arbitrary: i)
  case Nil
  then show ?case by simp
next
  case (Cons x xs)
  show ?case
  proof (cases i)
    case 0
    from Cons.prems(1) have "\<forall>y\<in>set xs. Key x \<le> Key y" by auto
    then have "filter (\<lambda>kv. Key x \<le> Key kv) xs = xs" by (simp add: filter_id_conv)
    with 0 show ?thesis by simp
  next
    case (Suc j)
    with Cons.prems have j: "j < length xs" and s: "sorted_wrt (<) (map Key xs)" by auto
    from Cons.prems(1) j have "Key x < Key (xs ! j)" by auto
    with Suc Cons.IH [OF s j] show ?thesis by simp
  qed
qed


lemma last_take:
  assumes "0 < L" and "L \<le> length xs"
  shows "last (take L xs) = xs ! (L - 1)"
proof -
  from assms have "take L xs \<noteq> []" by auto
  then have "last (take L xs) = take L xs ! (length (take L xs) - 1)"
    by (rule last_conv_nth)
  also from assms have "\<dots> = xs ! (L - 1)" by simp
  finally show ?thesis .
qed

lemma filter_from_key:
  fixes kvs :: "KeyValue list"
  assumes "sorted_wrt (<) (map Key kvs)"
    and "i < length (filter (\<lambda>kv. s \<le> Key kv) kvs)"
  shows "filter (\<lambda>kv. Key (filter (\<lambda>kv. s \<le> Key kv) kvs ! i) \<le> Key kv) kvs
    = drop i (filter (\<lambda>kv. s \<le> Key kv) kvs)"
proof -
  let ?rs = "filter (\<lambda>kv. s \<le> Key kv) kvs"
  let ?k = "Key (?rs ! i)"
  from assms(2) have "?rs ! i \<in> set ?rs" by (rule nth_mem)
  then have sk: "s \<le> ?k" by simp
  have "sorted_wrt (\<lambda>a b. Key a < Key b) kvs"
    using assms(1) by (simp add: sorted_wrt_map)
  then have "sorted_wrt (\<lambda>a b. Key a < Key b) ?rs"
    by (rule sorted_wrt_filter)
  then have srt: "sorted_wrt (<) (map Key ?rs)"
    by (simp add: sorted_wrt_map)
  have "filter (\<lambda>kv. ?k \<le> Key kv) kvs = filter (\<lambda>kv. ?k \<le> Key kv) ?rs"
  proof -
    have "filter (\<lambda>kv. ?k \<le> Key kv) ?rs = filter (\<lambda>kv. s \<le> Key kv \<and> ?k \<le> Key kv) kvs"
      by (simp only: filter_filter)
    also have "\<dots> = filter (\<lambda>kv. ?k \<le> Key kv) kvs"
      using sk by (intro filter_cong refl) auto
    finally show ?thesis by simp
  qed
  also have "\<dots> = drop i ?rs"
    using srt assms(2) by (rule filter_from_nth)
  finally show ?thesis .
qed

lemma load_loop_range:
  fixes kvs :: "KeyValue list" and client :: kv_client
  assumes sorted: "sorted_wrt (<) (map Key kvs)"
    and client: "\<And>n s l. client n s (opts lw) l =
        Inr (if sint l \<le> 0 \<or> length (filter (\<lambda>kv. s \<le> Key kv) kvs) \<le> nat (sint l)
             then \<lparr> Kvs = filter (\<lambda>kv. s \<le> Key kv) kvs, More = False, Revision = revision \<rparr>
             else \<lparr> Kvs = take (nat (sint l)) (filter (\<lambda>kv. s \<le> Key kv) kvs), More = True,
                    Revision = revision \<rparr>)"
    and lim: "sint limit \<noteq> 1"
  shows "\<exists>err tr1. load_loop lw client n s limit tr0 = Some ((revision + 1, err), tr0 @ tr1)
    \<and> puts tr1 = filter (\<lambda>kv. s \<le> Key kv) kvs
    \<and> hd (gets tr1) = (s, limit) \<and> gets tr1 \<noteq> []
    \<and> (\<forall>g \<in> set (gets tr1). snd g = limit)"
proof (induction "length (filter (\<lambda>kv. s \<le> Key kv) kvs)" arbitrary: n s tr0 rule: less_induct)
  case less
  let ?rs = "filter (\<lambda>kv. s \<le> Key kv) kvs"
  let ?L = "nat (sint limit)"
  show ?case
  proof (cases "sint limit \<le> 0 \<or> length ?rs \<le> ?L")
    case True
    then have resp: "client n s (opts lw) limit = Inr \<lparr> Kvs = ?rs, More = False, Revision = revision \<rparr>"
      by (simp add: client)
    have "load_loop lw client n s limit tr0 =
        Some ((revision + 1, (if ?rs = [] then None else putFn lw (last ?rs))),
              tr0 @ ([GetEv s limit] @ map PutEv ?rs @ [PostEv]))"
      by (subst load_loop.simps) (simp add: resp load_items_all)
    moreover have "puts ([GetEv s limit] @ map PutEv ?rs @ [PostEv]) = ?rs"
      by (simp add: puts_append puts_map_PutEv)
    moreover have "gets ([GetEv s limit] @ map PutEv ?rs @ [PostEv]) = [(s, limit)]"
      by (simp add: gets_append gets_map_PutEv)
    ultimately show ?thesis by auto
  next
    case False
    then have pos: "0 < sint limit" and long: "?L < length ?rs" by auto
    with lim have L2: "2 \<le> ?L" by auto
    let ?batch = "take ?L ?rs"
    let ?s' = "Key (?rs ! (?L - 1))"
    let ?tr' = "tr0 @ ([GetEv s limit] @ map PutEv (take (?L - 1) ?rs))"
    from False have resp: "client n s (opts lw) limit = Inr \<lparr> Kvs = ?batch, More = True, Revision = revision \<rparr>"
      by (simp add: client)
    from long L2 have ne: "?batch \<noteq> []" by auto
    from long L2 have lastb: "last ?batch = ?rs ! (?L - 1)"
      by (intro last_take) auto
    from long L2 have butl: "butlast ?batch = take (?L - 1) ?rs"
      by (simp add: butlast_take)
    have step: "load_loop lw client n s limit tr0 = load_loop lw client (Suc n) ?s' limit ?tr'"
      by (subst load_loop.simps) (simp add: resp load_items_skip_last [OF ne] lastb butl)
    from long L2 have i: "?L - 1 < length ?rs" by auto
    have rest: "filter (\<lambda>kv. ?s' \<le> Key kv) kvs = drop (?L - 1) ?rs"
      using sorted i by (rule filter_from_key)
    with long L2 have "length (filter (\<lambda>kv. ?s' \<le> Key kv) kvs) < length ?rs"
      by simp
    from less [OF this, of "Suc n" ?tr'] obtain err tr2 where
      run: "load_loop lw client (Suc n) ?s' limit ?tr' = Some ((revision + 1, err), ?tr' @ tr2)"
      and p: "puts tr2 = filter (\<lambda>kv. ?s' \<le> Key kv) kvs"
      and g: "\<forall>g \<in> set (gets tr2). snd g = limit"
      by blast
    let ?tr1 = "[GetEv s limit] @ map PutEv (take (?L - 1) ?rs) @ tr2"
    have "load_loop lw client n s limit tr0 = Some ((revision + 1, err), tr0 @ ?tr1)"
      using step run by simp
    moreover have "puts ?tr1 = ?rs"
      using rest by (simp add: puts_append puts_map_PutEv p)
    moreover have "gets ?tr1 = (s, limit) # gets tr2"
      by (simp add: gets_append gets_map_PutEv)
    ultimately show ?thesis using g by auto
  qed
qed


lemma load_limit_not_1: "sint (load_limit lw) \<noteq> 1"
proof
  assume "sint (load_limit lw) = 1"
  then have "sint (load_limit lw) = sint (1 :: int64)" by simp
  then have one: "load_limit lw = 1" by (simp only: signed_word_eqI)
  show False
  proof (cases "loadBatchSize lw = 0")
    case True
    with one show False by (simp add: load_limit_def)
  next
    case False
    with one have "loadBatchSize lw + 1 = 0 + 1" by (simp add: load_limit_def)
    then have "loadBatchSize lw = 0" by (simp only: add_right_cancel)
    with False show False by simp
  qed
qed

lemma load_loop_more:
  assumes "client n s (opts lw) limit = Inr resp" and "More resp" and "Kvs resp \<noteq> []"
  shows "load_loop lw client n s limit tr0 =
     load_loop lw client (Suc n) (Key (last (Kvs resp))) limit
       (tr0 @ GetEv s limit # map PutEv (butlast (Kvs resp)))"
  by (subst load_loop.simps) (simp add: assms load_items_skip_last)


lemma in_range_last:
  "os \<noteq> [] \<Longrightarrow> in_range os s k =
     (case last os of
        WithPrefix \<Rightarrow> take (length s) k = s
      | WithRange e \<Rightarrow>
          if e = [] then k = s else if e = [CHR 0x00] then s \<le> k else s \<le> k \<and> k < e
      | WithFromKey \<Rightarrow> s \<le> k)"
  by (cases os) simp_all

lemma load_fixed_range:
  fixes kvs :: "KeyValue list"
  assumes sorted: "sorted_wrt (<) (map Key kvs)"
    and os: "opts lw \<noteq> []"
    and fixed: "last (opts lw) = WithFromKey \<or> (\<exists>e. last (opts lw) = WithRange e \<and> e \<noteq> [])"
  shows "\<exists>err tr. load lw (etcdGet kvs revision) = Some ((revision + 1, err), tr)
    \<and> puts tr = filter (\<lambda>kv. in_range (opts lw) (key lw) (Key kv)) kvs
    \<and> distinct (puts tr)"
proof -
  obtain kvs' where sub: "\<And>s. filter (\<lambda>kv. in_range (opts lw) s (Key kv)) kvs
        = filter (\<lambda>kv. s \<le> Key kv) kvs'"
    and srt: "sorted_wrt (<) (map Key kvs')"
  proof (cases "last (opts lw) = WithFromKey \<or> last (opts lw) = WithRange [CHR 0x00]")
    case True
    then have "\<And>s. filter (\<lambda>kv. in_range (opts lw) s (Key kv)) kvs
        = filter (\<lambda>kv. s \<le> Key kv) kvs"
      using os by (auto simp: in_range_last)
    from this sorted show ?thesis by (rule that)
  next
    case False
    with fixed obtain e where e: "last (opts lw) = WithRange e" "e \<noteq> []" "e \<noteq> [CHR 0x00]"
      by auto
    have "\<And>s. filter (\<lambda>kv. in_range (opts lw) s (Key kv)) kvs
        = filter (\<lambda>kv. s \<le> Key kv) (filter (\<lambda>kv. Key kv < e) kvs)"
      using os e by (auto simp: in_range_last intro: filter_cong)
    moreover have "sorted_wrt (<) (map Key (filter (\<lambda>kv. Key kv < e) kvs))"
    proof -
      have "sorted_wrt (\<lambda>a b. Key a < Key b) kvs"
        using sorted by (simp add: sorted_wrt_map)
      then have "sorted_wrt (\<lambda>a b. Key a < Key b) (filter (\<lambda>kv. Key kv < e) kvs)"
        by (rule sorted_wrt_filter)
      then show ?thesis by (simp add: sorted_wrt_map)
    qed
    ultimately show ?thesis by (rule that)
  qed
  have cl: "\<And>n s l. etcdGet kvs revision n s (opts lw) l =
        Inr (if sint l \<le> 0 \<or> length (filter (\<lambda>kv. s \<le> Key kv) kvs') \<le> nat (sint l)
             then \<lparr> Kvs = filter (\<lambda>kv. s \<le> Key kv) kvs', More = False, Revision = revision \<rparr>
             else \<lparr> Kvs = take (nat (sint l)) (filter (\<lambda>kv. s \<le> Key kv) kvs'), More = True,
                    Revision = revision \<rparr>)"
    by (simp add: etcdGet_def sub Let_def)
  from load_loop_range [where lw = lw and n = 0 and s = "key lw" and ?tr0.0 = "[]"
      and client = "etcdGet kvs revision" and kvs = kvs' and revision = revision,
      OF srt cl load_limit_not_1 [of lw]]
  obtain err tr where l: "load lw (etcdGet kvs revision) = Some ((revision + 1, err), tr)"
    and p: "puts tr = filter (\<lambda>kv. key lw \<le> Key kv) kvs'"
    by (auto simp: load_def)
  from sorted have "distinct (map Key kvs)"
    by (simp add: strict_sorted_iff)
  then have d: "distinct kvs" by (simp add: distinct_map)
  from p have p': "puts tr = filter (\<lambda>kv. in_range (opts lw) (key lw) (Key kv)) kvs"
    by (simp add: sub)
  with d have "distinct (puts tr)" by simp
  with l p' show ?thesis by blast
qed

text \<open>
  Claim C5 fails for a watcher of a prefix. Line 580 makes every Get with the watcher's
  own options and the current start key, and after a batch with more data the start key
  is the last key of the batch (lines 588-590, "the start key of the next batch"). With
  WithPrefix the second Get therefore reads the keys that have that last key as a prefix,
  not the rest of the range of the watcher's key. For the key k, the option WithPrefix,
  the batch size 1 and a snapshot of k1, k2, k3 and k4 at revision 10, all four in the
  range of the watcher, load hands k1 and k2 to putFn, never k3 and k4, and returns
  revision 11 with a nil error. The same load with the range from k to l in place of the
  prefix hands over all four pairs.
\<close>

theorem C5_load_prefix_loses_pairs:
  "load ((NewLoopWatcher 0 ''w'' ''k'' (\<lambda>kv. None) (\<lambda>kv. None) None [WithPrefix])
           \<lparr> loadBatchSize := 1 \<rparr>)
     (etcdGet [\<lparr> Key = ''k1'', Value = ''a'' \<rparr>, \<lparr> Key = ''k2'', Value = ''b'' \<rparr>,
               \<lparr> Key = ''k3'', Value = ''c'' \<rparr>, \<lparr> Key = ''k4'', Value = ''d'' \<rparr>] 10)
   = Some ((11, None),
       [GetEv ''k'' 2, PutEv \<lparr> Key = ''k1'', Value = ''a'' \<rparr>,
        GetEv ''k2'' 2, PutEv \<lparr> Key = ''k2'', Value = ''b'' \<rparr>, PostEv])
   \<and> filter (\<lambda>kv. in_range [WithPrefix] ''k'' (Key kv))
       [\<lparr> Key = ''k1'', Value = ''a'' \<rparr>, \<lparr> Key = ''k2'', Value = ''b'' \<rparr>,
        \<lparr> Key = ''k3'', Value = ''c'' \<rparr>, \<lparr> Key = ''k4'', Value = ''d'' \<rparr>]
     = [\<lparr> Key = ''k1'', Value = ''a'' \<rparr>, \<lparr> Key = ''k2'', Value = ''b'' \<rparr>,
        \<lparr> Key = ''k3'', Value = ''c'' \<rparr>, \<lparr> Key = ''k4'', Value = ''d'' \<rparr>]
   \<and> load ((NewLoopWatcher 0 ''w'' ''k'' (\<lambda>kv. None) (\<lambda>kv. None) None [WithRange ''l''])
           \<lparr> loadBatchSize := 1 \<rparr>)
     (etcdGet [\<lparr> Key = ''k1'', Value = ''a'' \<rparr>, \<lparr> Key = ''k2'', Value = ''b'' \<rparr>,
               \<lparr> Key = ''k3'', Value = ''c'' \<rparr>, \<lparr> Key = ''k4'', Value = ''d'' \<rparr>] 10)
   = Some ((11, None),
       [GetEv ''k'' 2, PutEv \<lparr> Key = ''k1'', Value = ''a'' \<rparr>,
        GetEv ''k2'' 2, PutEv \<lparr> Key = ''k2'', Value = ''b'' \<rparr>,
        GetEv ''k3'' 2, PutEv \<lparr> Key = ''k3'', Value = ''c'' \<rparr>,
        PutEv \<lparr> Key = ''k4'', Value = ''d'' \<rparr>, PostEv])"
  by (simp add: load_def load_limit_def NewLoopWatcher_def load_loop.simps etcdGet_def
      less_eq_char_def less_char_def)

subsection \<open>watch and the loop of StartWatchLoop\<close>

lemma watch_extends: "\<exists>rest. fst (snd (watch lw revision script tr)) = tr @ WatchOpen revision # rest"
proof (induction lw revision script tr rule: watch.induct)
  case (1 lw revision tr)
  show ?case by simp
next
  case (2 lw revision script tr)
  show ?case by simp
next
  case (3 lw revision client script tr)
  show ?case
  proof (cases "load lw client")
    case None
    then show ?thesis by simp
  next
    case (Some res)
    obtain revision' err loaded where res: "res = ((revision', err), loaded)"
      by (cases res) auto
    from "3.IH" [OF Some, of "(revision', err)" loaded revision' err] res Some
    show ?thesis by auto
  qed
next
  case (4 lw revision wresp script tr)
  show ?case
  proof (cases "CompactRevision wresp \<noteq> 0")
    case True
    with "4.IH"(1) show ?thesis by auto
  next
    case False
    show ?thesis
    proof (cases "wresp_Err wresp \<noteq> None")
      case True
      with False show ?thesis by simp
    next
      case e: False
      with False "4.IH"(2) show ?thesis by auto
    qed
  qed
qed


lemma watch_script:
  "length (snd (snd (watch lw revision script tr))) \<le> length script
   \<and> (script \<noteq> [] \<and> hd script \<noteq> CtxDone \<longrightarrow>
        length (snd (snd (watch lw revision script tr))) < length script)"
proof (induction lw revision script tr rule: watch.induct)
  case (1 lw revision tr)
  show ?case by simp
next
  case (2 lw revision script tr)
  show ?case by simp
next
  case (3 lw revision client script tr)
  show ?case
  proof (cases "load lw client")
    case None
    then show ?thesis by simp
  next
    case (Some res)
    obtain revision' err loaded where res: "res = ((revision', err), loaded)"
      by (cases res) auto
    from "3.IH" [OF Some, of "(revision', err)" loaded revision' err] res Some
    show ?thesis by auto
  qed
next
  case (4 lw revision wresp script tr)
  show ?case
  proof (cases "CompactRevision wresp \<noteq> 0")
    case True
    with "4.IH"(1) show ?thesis by auto
  next
    case False
    show ?thesis
    proof (cases "wresp_Err wresp \<noteq> None")
      case True
      with False show ?thesis by simp
    next
      case e: False
      with False "4.IH"(2) show ?thesis by auto
    qed
  qed
qed

lemma watchLoop_done: "watchLoop lw revision (CtxDone # script) tr = Some tr"
  by (subst watchLoop.simps) simp

lemma watchLoop_step:
  assumes "script = [] \<or> hd script \<noteq> CtxDone"
  shows "watchLoop lw revision script tr =
     (case watch lw revision script tr of
        (NoReturn, tr', script') \<Rightarrow> None
      | (Returned nextRevision None, tr', script') \<Rightarrow> watchLoop lw revision script' tr'
      | (Returned nextRevision (Some err), tr', script') \<Rightarrow>
          watchLoop lw nextRevision script' (tr' @ [SleepEv (watchChangeRetryInterval lw)]))"
proof (cases script)
  case Nil
  show ?thesis unfolding Nil by (subst watchLoop.simps) simp
next
  case (Cons x rest)
  with assms have "x \<noteq> CtxDone" by simp
  then show ?thesis unfolding Cons
    by (subst watchLoop.simps) (cases x; simp del: watch.simps)
qed

lemma watchLoop_trace:
  "watchLoop lw revision script tr = Some final \<Longrightarrow>
     (\<exists>more. final = tr @ more)
     \<and> (script = [] \<or> hd script \<noteq> CtxDone \<longrightarrow>
          (\<exists>more. final = tr @ WatchOpen revision # more))"
proof (induction "length script" arbitrary: script revision tr rule: less_induct)
  case less
  show ?case
  proof (cases "script = [] \<or> hd script \<noteq> CtxDone")
    case False
    then obtain rest where "script = CtxDone # rest" by (cases script) auto
    with less.prems False show ?thesis by (simp add: watchLoop_done)
  next
    case True
    obtain res tr' script' where w: "watch lw revision script tr = (res, tr', script')"
      by (cases "watch lw revision script tr")
    from watch_extends [of lw revision script tr] w
    obtain rest where tr': "tr' = tr @ WatchOpen revision # rest" by auto
    have ne: "script \<noteq> []"
    proof
      assume "script = []"
      with less.prems show False by (simp add: watchLoop_step)
    qed
    with True watch_script [of lw revision script tr] w
    have shorter: "length script' < length script" by auto
    show ?thesis
    proof (cases res)
      case NoReturn
      with less.prems True w show ?thesis by (simp add: watchLoop_step)
    next
      case (Returned nextRevision err)
      show ?thesis
      proof (cases err)
        case None
        with less.prems True w Returned
        have "watchLoop lw revision script' tr' = Some final"
          by (simp add: watchLoop_step)
        from less.hyps [OF shorter this] obtain more where "final = tr' @ more" by blast
        with tr' True show ?thesis by simp
      next
        case (Some e)
        with less.prems True w Returned
        have "watchLoop lw nextRevision script'
            (tr' @ [SleepEv (watchChangeRetryInterval lw)]) = Some final"
          by (simp add: watchLoop_step)
        from less.hyps [OF shorter this] obtain more where
          "final = (tr' @ [SleepEv (watchChangeRetryInterval lw)]) @ more" by blast
        with tr' True show ?thesis by simp
      qed
    qed
  qed
qed


text \<open>
  Claim C6. When watch receives a response with a non-zero CompactRevision it does not
  return: it goes on with the CompactRevision as its revision, and what it does next is to
  open the watch channel at that revision. When the response has a zero CompactRevision
  and an error, watch returns its current revision and that error. The loop of
  StartWatchLoop then sleeps for watchChangeRetryInterval and, unless the context is done
  by then, calls watch again, which opens the watch channel at the revision that watch
  returned; it does so after every error that watch returns. With the context done after
  the sleep the loop ends, with nothing more arriving the retried watch waits for ever,
  and a loop that finds the context done at its start ends at once.
\<close>

theorem C6_watch:
  "(CompactRevision wresp \<noteq> 0 \<longrightarrow>
      watch lw revision (WatchResp wresp # script) tr =
        watch lw (CompactRevision wresp) script (tr @ [WatchOpen revision])
      \<and> (\<exists>rest. fst (snd (watch lw revision (WatchResp wresp # script) tr)) =
            tr @ WatchOpen revision # WatchOpen (CompactRevision wresp) # rest))
   \<and> (CompactRevision wresp = 0 \<and> wresp_Err wresp = Some e \<longrightarrow>
      watch lw revision (WatchResp wresp # script) tr =
        (Returned revision (Some e), tr @ [WatchOpen revision], script)
      \<and> watchLoop lw revision (WatchResp wresp # script) tr =
          watchLoop lw revision script
            (tr @ [WatchOpen revision, SleepEv (watchChangeRetryInterval lw)])
      \<and> watchLoop lw revision (WatchResp wresp # CtxDone # script) tr =
          Some (tr @ [WatchOpen revision, SleepEv (watchChangeRetryInterval lw)])
      \<and> watchLoop lw revision [WatchResp wresp] tr = None
      \<and> (\<forall>final. (script = [] \<or> hd script \<noteq> CtxDone)
            \<and> watchLoop lw revision (WatchResp wresp # script) tr = Some final \<longrightarrow>
            (\<exists>more. final = tr @ WatchOpen revision
               # SleepEv (watchChangeRetryInterval lw) # WatchOpen revision # more)))
   \<and> (\<forall>nextRevision err tr' script' w rest.
        watch lw revision (WatchResp w # rest) tr = (Returned nextRevision (Some err), tr', script')
        \<longrightarrow> watchLoop lw revision (WatchResp w # rest) tr =
              watchLoop lw nextRevision script'
                (tr' @ [SleepEv (watchChangeRetryInterval lw)])
            \<and> (\<forall>final. (script' = [] \<or> hd script' \<noteq> CtxDone)
                  \<and> watchLoop lw revision (WatchResp w # rest) tr = Some final \<longrightarrow>
                  (\<exists>more. final = tr' @ SleepEv (watchChangeRetryInterval lw)
                     # WatchOpen nextRevision # more)))
   \<and> watchLoop lw revision (CtxDone # script) tr = Some tr"
proof -
  let ?d = "SleepEv (watchChangeRetryInterval lw)"
  have loop: "watchLoop lw revision (WatchResp w # rest) tr =
        watchLoop lw nextRevision script' (tr' @ [?d])"
    if "watch lw revision (WatchResp w # rest) tr = (Returned nextRevision (Some err), tr', script')"
    for w rest nextRevision err tr' script'
    using that by (subst watchLoop_step) (simp_all del: watch.simps)
  have retry: "\<exists>more. final = tr' @ ?d # WatchOpen nextRevision # more"
    if w: "watch lw revision (WatchResp w # rest) tr = (Returned nextRevision (Some err), tr', script')"
      and h: "script' = [] \<or> hd script' \<noteq> CtxDone"
      and f: "watchLoop lw revision (WatchResp w # rest) tr = Some final"
    for w rest nextRevision err tr' script' final
  proof -
    from f loop [OF w] have "watchLoop lw nextRevision script' (tr' @ [?d]) = Some final"
      by simp
    from watchLoop_trace [OF this] h show ?thesis by auto
  qed
  have compact: "CompactRevision wresp \<noteq> 0 \<longrightarrow>
      watch lw revision (WatchResp wresp # script) tr =
        watch lw (CompactRevision wresp) script (tr @ [WatchOpen revision])
      \<and> (\<exists>rest. fst (snd (watch lw revision (WatchResp wresp # script) tr)) =
            tr @ WatchOpen revision # WatchOpen (CompactRevision wresp) # rest)"
  proof (intro impI conjI)
    assume c: "CompactRevision wresp \<noteq> 0"
    then show eq: "watch lw revision (WatchResp wresp # script) tr =
        watch lw (CompactRevision wresp) script (tr @ [WatchOpen revision])"
      by simp
    from watch_extends [of lw "CompactRevision wresp" script "tr @ [WatchOpen revision]"]
    show "\<exists>rest. fst (snd (watch lw revision (WatchResp wresp # script) tr)) =
        tr @ WatchOpen revision # WatchOpen (CompactRevision wresp) # rest"
      unfolding eq by simp
  qed
  have failed: "CompactRevision wresp = 0 \<and> wresp_Err wresp = Some e \<longrightarrow>
      watch lw revision (WatchResp wresp # script) tr =
        (Returned revision (Some e), tr @ [WatchOpen revision], script)
      \<and> watchLoop lw revision (WatchResp wresp # script) tr =
          watchLoop lw revision script (tr @ [WatchOpen revision, ?d])
      \<and> watchLoop lw revision (WatchResp wresp # CtxDone # script) tr =
          Some (tr @ [WatchOpen revision, ?d])
      \<and> watchLoop lw revision [WatchResp wresp] tr = None
      \<and> (\<forall>final. (script = [] \<or> hd script \<noteq> CtxDone)
            \<and> watchLoop lw revision (WatchResp wresp # script) tr = Some final \<longrightarrow>
            (\<exists>more. final = tr @ WatchOpen revision # ?d # WatchOpen revision # more))"
  proof (intro impI conjI allI)
    assume h: "CompactRevision wresp = 0 \<and> wresp_Err wresp = Some e"
    then have w: "watch lw revision (WatchResp wresp # sc) tr =
        (Returned revision (Some e), tr @ [WatchOpen revision], sc)" for sc
      by simp
    show "watch lw revision (WatchResp wresp # script) tr =
        (Returned revision (Some e), tr @ [WatchOpen revision], script)"
      by (rule w)
    show "watchLoop lw revision (WatchResp wresp # script) tr =
        watchLoop lw revision script (tr @ [WatchOpen revision, ?d])"
      using loop [OF w] by simp
    show "watchLoop lw revision (WatchResp wresp # CtxDone # script) tr =
        Some (tr @ [WatchOpen revision, ?d])"
      using loop [OF w, of "CtxDone # script"] by (simp add: watchLoop_done)
    have "watchLoop lw revision [] (tr @ [WatchOpen revision, ?d]) = None"
      by (subst watchLoop_step) simp_all
    then show "watchLoop lw revision [WatchResp wresp] tr = None"
      using loop [OF w, of "[]"] by simp
    fix final
    assume f: "(script = [] \<or> hd script \<noteq> CtxDone)
        \<and> watchLoop lw revision (WatchResp wresp # script) tr = Some final"
    from retry [OF w, of script final] f
    show "\<exists>more. final = tr @ WatchOpen revision # ?d # WatchOpen revision # more"
      by auto
  qed
  have every: "\<forall>nextRevision err tr' script' w rest.
        watch lw revision (WatchResp w # rest) tr = (Returned nextRevision (Some err), tr', script')
        \<longrightarrow> watchLoop lw revision (WatchResp w # rest) tr =
              watchLoop lw nextRevision script' (tr' @ [?d])
            \<and> (\<forall>final. (script' = [] \<or> hd script' \<noteq> CtxDone)
                  \<and> watchLoop lw revision (WatchResp w # rest) tr = Some final \<longrightarrow>
                  (\<exists>more. final = tr' @ ?d # WatchOpen nextRevision # more))"
    using loop retry by blast
  from compact failed every watchLoop_done [of lw revision script tr] show ?thesis
    by blast
qed

text \<open>
  The claim at a watch that starts at revision 3 and receives a response with the
  CompactRevision 7 and then two responses with an error, after which the context is
  done: watch reopens the channel at 7 and returns 7 with the first error; the loop
  sleeps for one second, opens the watch at 7 again, sleeps for one second after the
  second error, and ends.
\<close>

theorem C6_watch_witness:
  "watch (NewLoopWatcher 0 ''w'' ''k'' (\<lambda>kv. None) (\<lambda>kv. None) None []) 3
     [WatchResp \<lparr> CompactRevision = 7, wresp_Err = Some (External ''compacted''),
                  Events = [], wresp_Revision = 0 \<rparr>,
      WatchResp \<lparr> CompactRevision = 0, wresp_Err = Some (External ''canceled''),
                  Events = [], wresp_Revision = 0 \<rparr>,
      WatchResp \<lparr> CompactRevision = 0, wresp_Err = Some (External ''no leader''),
                  Events = [], wresp_Revision = 0 \<rparr>,
      CtxDone] []
   = (Returned 7 (Some (External ''canceled'')), [WatchOpen 3, WatchOpen 7],
      [WatchResp \<lparr> CompactRevision = 0, wresp_Err = Some (External ''no leader''),
                   Events = [], wresp_Revision = 0 \<rparr>,
       CtxDone])
   \<and> watchLoop (NewLoopWatcher 0 ''w'' ''k'' (\<lambda>kv. None) (\<lambda>kv. None) None []) 3
     [WatchResp \<lparr> CompactRevision = 7, wresp_Err = Some (External ''compacted''),
                  Events = [], wresp_Revision = 0 \<rparr>,
      WatchResp \<lparr> CompactRevision = 0, wresp_Err = Some (External ''canceled''),
                  Events = [], wresp_Revision = 0 \<rparr>,
      WatchResp \<lparr> CompactRevision = 0, wresp_Err = Some (External ''no leader''),
                  Events = [], wresp_Revision = 0 \<rparr>,
      CtxDone] []
   = Some [WatchOpen 3, WatchOpen 7, SleepEv (1 * Second), WatchOpen 7, SleepEv (1 * Second)]"
proof -
  let ?lw = "NewLoopWatcher 0 ''w'' ''k'' (\<lambda>kv. None) (\<lambda>kv. None) None []"
  let ?w1 = "\<lparr> CompactRevision = 7, wresp_Err = Some (External ''compacted''),
                  Events = [], wresp_Revision = 0 \<rparr>"
  let ?w2 = "\<lparr> CompactRevision = 0, wresp_Err = Some (External ''canceled''),
                  Events = [], wresp_Revision = 0 \<rparr>"
  let ?w3 = "\<lparr> CompactRevision = 0, wresp_Err = Some (External ''no leader''),
                  Events = [], wresp_Revision = 0 \<rparr>"
  have d: "watchChangeRetryInterval ?lw = 1 * Second"
    by (simp add: NewLoopWatcher_def defaultWatchChangeRetryInterval_def)
  have c1: "CompactRevision ?w1 \<noteq> 0" by simp
  have c2: "CompactRevision ?w2 = 0 \<and> wresp_Err ?w2 = Some (External ''canceled'')" by simp
  have c3: "CompactRevision ?w3 = 0 \<and> wresp_Err ?w3 = Some (External ''no leader'')" by simp
  from C6_watch [of ?w1 ?lw 3 "[WatchResp ?w2, WatchResp ?w3, CtxDone]" "[]" "External []"] c1
  have a: "watch ?lw 3 [WatchResp ?w1, WatchResp ?w2, WatchResp ?w3, CtxDone] [] =
      watch ?lw 7 [WatchResp ?w2, WatchResp ?w3, CtxDone] [WatchOpen 3]"
    by simp
  from C6_watch [of ?w2 ?lw 7 "[WatchResp ?w3, CtxDone]" "[WatchOpen 3]"
      "External ''canceled''"] c2
  have b: "watch ?lw 7 [WatchResp ?w2, WatchResp ?w3, CtxDone] [WatchOpen 3] =
      (Returned 7 (Some (External ''canceled'')), [WatchOpen 3, WatchOpen 7],
       [WatchResp ?w3, CtxDone])"
    by simp
  from C6_watch [of ?w1 ?lw 3 "[WatchResp ?w2, WatchResp ?w3, CtxDone]" "[]" "External []"]
  have "\<forall>nextRevision err tr' script' w rest.
        watch ?lw 3 (WatchResp w # rest) [] = (Returned nextRevision (Some err), tr', script')
        \<longrightarrow> watchLoop ?lw 3 (WatchResp w # rest) [] =
              watchLoop ?lw nextRevision script'
                (tr' @ [SleepEv (watchChangeRetryInterval ?lw)])"
    by blast
  with a b
  have "watchLoop ?lw 3 [WatchResp ?w1, WatchResp ?w2, WatchResp ?w3, CtxDone] [] =
      watchLoop ?lw 7 [WatchResp ?w3, CtxDone]
        ([WatchOpen 3, WatchOpen 7] @ [SleepEv (watchChangeRetryInterval ?lw)])"
    by simp
  also from C6_watch [of ?w3 ?lw 7 "[]" "[WatchOpen 3, WatchOpen 7, SleepEv (1 * Second)]"
      "External ''no leader''"] c3
  have "watchLoop ?lw 7 [WatchResp ?w3, CtxDone]
        ([WatchOpen 3, WatchOpen 7] @ [SleepEv (watchChangeRetryInterval ?lw)]) =
      Some [WatchOpen 3, WatchOpen 7, SleepEv (1 * Second), WatchOpen 7, SleepEv (1 * Second)]"
    by (simp add: d)
  finally show ?thesis using a b by simp
qed

subsection \<open>ForceLoad\<close>

lemma ForceLoad_last:
  "lastTimeForceLoad (ForceLoad lw t1 t2 t3) =
     (if t1 - lastTimeForceLoad lw < defaultForceLoadMinimalInterval
         \<or> t2 - lastTimeForceLoad lw < defaultForceLoadMinimalInterval
      then lastTimeForceLoad lw else t3)"
  by (simp add: ForceLoad_def ForceLoad_locked_def ForceLoad_send_def)

lemma admitted_lower:
  assumes "\<forall>c \<in> set calls. fst (snd c) \<le> snd (snd c)"
  shows "\<forall>x \<in> set (admitted lw calls).
           lastTimeForceLoad lw + defaultForceLoadMinimalInterval \<le> x"
  using assms
proof (induction calls arbitrary: lw)
  case Nil
  show ?case by simp
next
  case (Cons c calls)
  obtain t1 t2 t3 where c: "c = (t1, t2, t3)" by (cases c) auto
  from Cons.prems c have t: "t2 \<le> t3" by simp
  from Cons.prems have rest: "\<forall>c \<in> set calls. fst (snd c) \<le> snd (snd c)" by simp
  have pos: "0 \<le> defaultForceLoadMinimalInterval"
    by (simp add: defaultForceLoadMinimalInterval_def Millisecond_ns)
  note IH = Cons.IH [OF rest, of "ForceLoad lw t1 t2 t3"]
  show ?case
  proof (cases "t1 - lastTimeForceLoad lw < defaultForceLoadMinimalInterval
         \<or> t2 - lastTimeForceLoad lw < defaultForceLoadMinimalInterval")
    case True
    with IH c show ?thesis by (simp add: ForceLoad_last)
  next
    case False
    with t have "lastTimeForceLoad lw + defaultForceLoadMinimalInterval \<le> t3" by simp
    moreover from IH False pos
    have "\<forall>x \<in> set (admitted (ForceLoad lw t1 t2 t3) calls).
        t3 + defaultForceLoadMinimalInterval \<le> x"
      by (simp add: ForceLoad_last)
    ultimately show ?thesis using c False pos by auto
  qed
qed

lemma admitted_apart:
  assumes "\<forall>c \<in> set calls. fst (snd c) \<le> snd (snd c)"
  shows "sorted_wrt (\<lambda>a b. a + defaultForceLoadMinimalInterval \<le> b) (admitted lw calls)"
  using assms
proof (induction calls arbitrary: lw)
  case Nil
  show ?case by simp
next
  case (Cons c calls)
  obtain t1 t2 t3 where c: "c = (t1, t2, t3)" by (cases c) auto
  from Cons.prems have rest: "\<forall>c \<in> set calls. fst (snd c) \<le> snd (snd c)" by simp
  note IH = Cons.IH [OF rest, of "ForceLoad lw t1 t2 t3"]
  show ?case
  proof (cases "t1 - lastTimeForceLoad lw < defaultForceLoadMinimalInterval
         \<or> t2 - lastTimeForceLoad lw < defaultForceLoadMinimalInterval")
    case True
    with IH c show ?thesis by simp
  next
    case False
    from admitted_lower [OF rest, of "ForceLoad lw t1 t2 t3"] False
    have "\<forall>x \<in> set (admitted (ForceLoad lw t1 t2 t3) calls).
        t3 + defaultForceLoadMinimalInterval \<le> x"
      by (simp add: ForceLoad_last)
    with IH c False show ?thesis by simp
  qed
qed

text \<open>
  Claim C8. A call of ForceLoad whose first or second clock reading is less than 200 ms
  after lastTimeForceLoad returns the watcher as it was: lastTimeForceLoad is not updated
  and nothing is sent on forceLoadCh. The send never waits: the channel holds at most one
  signal, and with a signal in it the call leaves it as it is and returns. A call that
  updates lastTimeForceLoad sets it at least 200 ms later than it was, in the sequential
  call and in the section under the write lock from any state, provided the clock does not
  run backwards between the second check and the reading of time.Now(). So the times of
  the admitted force loads of any sequence of calls are pairwise at least 200 ms apart,
  and at least 200 ms after the initial lastTimeForceLoad.
\<close>

theorem C8_ForceLoad:
  "(t1 - lastTimeForceLoad lw < 200 * Millisecond \<longrightarrow> ForceLoad lw t1 t2 t3 = lw)
   \<and> (t2 - lastTimeForceLoad lw < 200 * Millisecond \<longrightarrow> ForceLoad lw t1 t2 t3 = lw)
   \<and> (forceLoadCh lw \<le> 1 \<longrightarrow> forceLoadCh (ForceLoad lw t1 t2 t3) \<le> 1)
   \<and> (forceLoadCh lw = 1 \<longrightarrow> forceLoadCh (ForceLoad lw t1 t2 t3) = 1)
   \<and> (lastTimeForceLoad (ForceLoad lw t1 t2 t3) \<noteq> lastTimeForceLoad lw \<and> t2 \<le> t3 \<longrightarrow>
        lastTimeForceLoad lw + 200 * Millisecond \<le> lastTimeForceLoad (ForceLoad lw t1 t2 t3))
   \<and> (\<forall>lw'. ForceLoad_locked lw t2 t3 = (lw', True) \<and> t2 \<le> t3 \<longrightarrow>
        lastTimeForceLoad lw + 200 * Millisecond \<le> lastTimeForceLoad lw')
   \<and> ((\<forall>c \<in> set calls. fst (snd c) \<le> snd (snd c)) \<longrightarrow>
        sorted_wrt (\<lambda>a b. a + 200 * Millisecond \<le> b) (admitted lw calls)
        \<and> (\<forall>x \<in> set (admitted lw calls). lastTimeForceLoad lw + 200 * Millisecond \<le> x))"
proof -
  have I: "defaultForceLoadMinimalInterval = 200 * Millisecond"
    by (simp add: defaultForceLoadMinimalInterval_def)
  show ?thesis
    unfolding I [symmetric]
  proof (intro conjI impI allI)
    assume "t1 - lastTimeForceLoad lw < defaultForceLoadMinimalInterval"
    then show "ForceLoad lw t1 t2 t3 = lw" by (simp add: ForceLoad_def)
  next
    assume "t2 - lastTimeForceLoad lw < defaultForceLoadMinimalInterval"
    then show "ForceLoad lw t1 t2 t3 = lw"
      by (simp add: ForceLoad_def ForceLoad_locked_def)
  next
    assume "forceLoadCh lw \<le> 1"
    then show "forceLoadCh (ForceLoad lw t1 t2 t3) \<le> 1"
      by (simp add: ForceLoad_def ForceLoad_locked_def ForceLoad_send_def)
  next
    assume "forceLoadCh lw = 1"
    then show "forceLoadCh (ForceLoad lw t1 t2 t3) = 1"
      by (simp add: ForceLoad_def ForceLoad_locked_def ForceLoad_send_def)
  next
    assume "lastTimeForceLoad (ForceLoad lw t1 t2 t3) \<noteq> lastTimeForceLoad lw \<and> t2 \<le> t3"
    then show "lastTimeForceLoad lw + defaultForceLoadMinimalInterval
        \<le> lastTimeForceLoad (ForceLoad lw t1 t2 t3)"
      by (auto simp: ForceLoad_last split: if_splits)
  next
    fix lw'
    assume "ForceLoad_locked lw t2 t3 = (lw', True) \<and> t2 \<le> t3"
    then show "lastTimeForceLoad lw + defaultForceLoadMinimalInterval \<le> lastTimeForceLoad lw'"
      by (auto simp: ForceLoad_locked_def split: if_splits)
  next
    assume "\<forall>c \<in> set calls. fst (snd c) \<le> snd (snd c)"
    then show "sorted_wrt (\<lambda>a b. a + defaultForceLoadMinimalInterval \<le> b) (admitted lw calls)"
      by (rule admitted_apart)
  next
    assume "\<forall>c \<in> set calls. fst (snd c) \<le> snd (snd c)"
    then show "\<forall>x \<in> set (admitted lw calls).
        lastTimeForceLoad lw + defaultForceLoadMinimalInterval \<le> x"
      by (rule admitted_lower)
  qed
qed

text \<open>
  The theorem at a watcher created at time 0: a call at 199999999 ns changes nothing, and
  of four calls at about 100, 200, 300 and 400 ms the second and the fourth are admitted;
  the channel then holds one signal.
\<close>

theorem C8_ForceLoad_witness:
  "ForceLoad (NewLoopWatcher 0 ''w'' ''k'' (\<lambda>kv. None) (\<lambda>kv. None) None [])
      199999999 199999999 199999999
    = NewLoopWatcher 0 ''w'' ''k'' (\<lambda>kv. None) (\<lambda>kv. None) None []
   \<and> admitted (NewLoopWatcher 0 ''w'' ''k'' (\<lambda>kv. None) (\<lambda>kv. None) None [])
      [(100000000, 100000000, 100000000), (200000000, 200000001, 200000002),
       (300000000, 300000000, 300000000), (400000002, 400000002, 400000005)]
    = [200000002, 400000005]
   \<and> forceLoadCh (ForceLoads (NewLoopWatcher 0 ''w'' ''k'' (\<lambda>kv. None) (\<lambda>kv. None) None [])
      [(100000000, 100000000, 100000000), (200000000, 200000001, 200000002),
       (300000000, 300000000, 300000000), (400000002, 400000002, 400000005)]) = 1"
proof -
  let ?lw = "NewLoopWatcher 0 ''w'' ''k'' (\<lambda>kv. None) (\<lambda>kv. None) None []"
  let ?calls = "[(100000000, 100000000, 100000000), (200000000, 200000001, 200000002),
       (300000000, 300000000, 300000000), (400000002, 400000002, 400000005)]
       :: (int \<times> int \<times> int) list"
  have early: "199999999 - lastTimeForceLoad ?lw < 200 * Millisecond"
    by (simp add: NewLoopWatcher_def Millisecond_ns)
  have clock: "\<forall>c \<in> set ?calls. fst (snd c) \<le> snd (snd c)" by simp
  from C8_ForceLoad [of 199999999 ?lw 199999999 199999999 ?calls] early clock
  have "ForceLoad ?lw 199999999 199999999 199999999 = ?lw"
    and "sorted_wrt (\<lambda>a b. a + 200 * Millisecond \<le> b) (admitted ?lw ?calls)"
    by blast+
  moreover have "admitted ?lw ?calls = [200000002, 400000005]"
    by (simp add: NewLoopWatcher_def ForceLoad_def ForceLoad_locked_def ForceLoad_send_def
        defaultForceLoadMinimalInterval_def Millisecond_ns)
  moreover have "forceLoadCh (ForceLoads ?lw ?calls) = 1"
    by (simp add: NewLoopWatcher_def ForceLoad_def ForceLoad_locked_def ForceLoad_send_def
        defaultForceLoadMinimalInterval_def Millisecond_ns)
  ultimately show ?thesis by simp
qed

end
